theory Spec2Isabelle
  imports Complex_Main "HOL-Library.Word"
begin

section \<open>AccessTrackerBase (cachelib/common/AccessTracker.h)\<close>

text \<open>
  A shallow embedding of the class template \<open>AccessTrackerBase<CMS>\<close>.

  \<^item> \<open>size_t\<close> values (bucket indices, ticks, vector sizes) are \<open>nat\<close>. The only sums the
    class forms are \<open>bucketIdx + 1\<close> and \<open>mostRecent + numBuckets - i\<close> with
    \<open>i < numBuckets\<close>; both stay below \<open>2 * numBuckets + 1\<close>, and a tracker holds vectors
    of \<open>numBuckets\<close> elements, so no \<open>size_t\<close> operation wraps.
  \<^item> The raw counters are \<open>uint64_t\<close>: \<open>64 word\<close>, \<open>++\<close> wraps.
  \<^item> Division or modulo by zero, an index outside a vector (\<open>operator[]\<close> as well as
    \<open>at\<close>) and a spin on a lock that is already held are outcomes of the model, the
    left summand of the result type.
  \<^item> The data members are named as in the class, without the trailing underscore
    (\<open>config\<close> for \<open>config_\<close>, \<open>itemCounts\<close> for \<open>itemCounts_\<close>).
  \<^item> The ticker, the hash function, the count-min sketch \<open>CMS\<close> and the
    \<open>BloomFilter\<close> are declared in other headers. The value the ticker returns is an
    argument of each operation that reads it; the other collaborators are the fields of
    a record of operations that every function of the model takes as its first argument.
\<close>

subsection \<open>Outcomes\<close>

datatype error = DivideByZero | OutOfRange | LockHeld

definition bindE :: "error + 'a \<Rightarrow> ('a \<Rightarrow> error + 'b) \<Rightarrow> error + 'b" where
  "bindE m f = (case m of Inl e \<Rightarrow> Inl e | Inr x \<Rightarrow> f x)"

subsection \<open>Config and collaborators\<close>

record Config =
  numBuckets :: nat
  numTicksPerBucket :: nat
  useCounts :: bool
  maxNumOpsPerBucket :: nat
  cmsMaxErrorValue :: nat
  cmsErrorCertainity :: real
  cmsMaxWidth :: nat
  cmsMaxDepth :: nat
  bfFalsePositiveRate :: real

text \<open>
  The operations of the collaborators, as the class calls them. \<open>cmsNew\<close> stands for
  the constructor call \<open>CMS(errorMargin, cmsErrorCertainity, cmsMaxWidth, cmsMaxDepth)\<close>,
  all of whose arguments are computed from the config; \<open>bfDefault\<close> is the
  default-constructed \<open>BloomFilter\<close> member, \<open>bfMovedFrom\<close> what a \<open>BloomFilter\<close>
  is after it has been moved from.
\<close>

record ('c, 'f) Collab =
  hash64 :: "string \<Rightarrow> 64 word \<Rightarrow> 64 word"
  cmsNew :: "Config \<Rightarrow> 'c"
  cmsIncrement :: "'c \<Rightarrow> 64 word \<Rightarrow> 'c"
  cmsGetCount :: "'c \<Rightarrow> 64 word \<Rightarrow> real"
  cmsReset :: "'c \<Rightarrow> 'c"
  cmsGetByteSize :: "'c \<Rightarrow> nat"
  bfDefault :: "'f"
  bfMovedFrom :: "'f \<Rightarrow> 'f"
  makeBloomFilter :: "nat \<Rightarrow> nat \<Rightarrow> real \<Rightarrow> 'f"
  bfSet :: "'f \<Rightarrow> nat \<Rightarrow> 64 word \<Rightarrow> 'f"
  bfCouldExist :: "'f \<Rightarrow> nat \<Rightarrow> 64 word \<Rightarrow> bool"
  bfClear :: "'f \<Rightarrow> nat \<Rightarrow> 'f"
  bfGetByteSize :: "'f \<Rightarrow> nat"

definition kRandomSeed :: "64 word" where
  "kRandomSeed = 314159"

subsection \<open>The tracker\<close>

record ('c, 'f) AccessTrackerBase =
  config :: Config
  mostRecentAccessedBucket :: nat
  filters :: "'f"
  counts :: "'c list"
  locks :: "bool list"
  itemCounts :: "64 word list"

text \<open>The constructor \<open>AccessTrackerBase(Config)\<close>.\<close>

definition newAccessTrackerBase ::
  "('c, 'f) Collab \<Rightarrow> Config \<Rightarrow> ('c, 'f) AccessTrackerBase" where
  "newAccessTrackerBase B cfg =
     \<lparr> config = cfg,
       mostRecentAccessedBucket = 0,
       filters = (if useCounts cfg then bfDefault B
                   else makeBloomFilter B (numBuckets cfg) (maxNumOpsPerBucket cfg)
                          (bfFalsePositiveRate cfg)),
       counts = (if useCounts cfg then replicate (numBuckets cfg) (cmsNew B cfg)
                  else []),
       locks = replicate (numBuckets cfg) False,
       itemCounts = replicate (numBuckets cfg) 0 \<rparr>"

definition getNumBuckets :: "('c, 'f) AccessTrackerBase \<Rightarrow> nat" where
  "getNumBuckets s = numBuckets (config s)"

text \<open>
  The move constructor: its initialiser list names \<open>config\<close>,
  \<open>mostRecentAccessedBucket\<close>, \<open>filters\<close>, \<open>counts\<close> and \<open>locks\<close>. The member
  \<open>itemCounts\<close> is not in the list, so the new object's is default-constructed (empty)
  and the old object keeps its own.

  Moving the \<open>Config\<close> copies its scalar members and moves its ticker pointer, which
  is null in the old object afterwards: every operation of the old object that reads the
  tick dereferences a null pointer. What is left of the old object therefore has a type of
  its own, with the data members only and no operation of the tracker.
  The result of the move is the pair (new object, what is left of the old one).
\<close>

record ('c, 'f) MovedFrom =
  movedConfig :: Config
  movedMostRecentAccessedBucket :: nat
  movedFilters :: "'f"
  movedCounts :: "'c list"
  movedLocks :: "bool list"
  movedItemCounts :: "64 word list"

definition moveConstruct ::
  "('c, 'f) Collab \<Rightarrow> ('c, 'f) AccessTrackerBase
     \<Rightarrow> ('c, 'f) AccessTrackerBase \<times> ('c, 'f) MovedFrom" where
  "moveConstruct B other =
     (\<lparr> config = config other,
        mostRecentAccessedBucket = mostRecentAccessedBucket other,
        filters = filters other,
        counts = counts other,
        locks = locks other,
        itemCounts = [] \<rparr>,
      \<lparr> movedConfig = config other,
        movedMostRecentAccessedBucket = mostRecentAccessedBucket other,
        movedFilters = bfMovedFrom B (filters other),
        movedCounts = [],
        movedLocks = [],
        movedItemCounts = itemCounts other \<rparr>)"

text \<open>
  Move assignment. \<open>sameObject\<close> says whether \<open>this\<close> and \<open>other\<close> are one object
  (\<open>this == &other\<close>): then nothing happens and nothing is moved from. Otherwise the
  target is destroyed and move-constructed in place from \<open>other\<close>; its old state plays
  no part. The result is the target afterwards and, when a move took place, what is left
  of \<open>other\<close>.
\<close>

definition moveAssign ::
  "('c, 'f) Collab \<Rightarrow> bool \<Rightarrow> ('c, 'f) AccessTrackerBase \<Rightarrow> ('c, 'f) AccessTrackerBase
     \<Rightarrow> ('c, 'f) AccessTrackerBase \<times> ('c, 'f) MovedFrom option" where
  "moveAssign B sameObject this other =
     (if sameObject then (this, None)
      else (fst (moveConstruct B other), Some (snd (moveConstruct B other))))"

definition getByteSize :: "('c, 'f) Collab \<Rightarrow> ('c, 'f) AccessTrackerBase \<Rightarrow> nat" where
  "getByteSize B s =
     bfGetByteSize B (filters s) +
     (if counts s = [] then 0
      else length (counts s) * cmsGetByteSize B (counts s ! 0))"

definition rotatedIdx :: "('c, 'f) AccessTrackerBase \<Rightarrow> nat \<Rightarrow> error + nat" where
  "rotatedIdx s bucket =
     (if numBuckets (config s) = 0 then Inl DivideByZero
      else Inr (bucket mod numBuckets (config s)))"

definition getCurrentBucketIndex :: "nat \<Rightarrow> ('c, 'f) AccessTrackerBase \<Rightarrow> error + nat" where
  "getCurrentBucketIndex tick s =
     (if numTicksPerBucket (config s) = 0 then Inl DivideByZero
      else rotatedIdx s (tick div numTicksPerBucket (config s)))"

subsection \<open>Per-bucket locks\<close>

text \<open>
  \<open>LockHolder l(locks[idx])\<close> acquires the spin lock for the rest of the block. A lock
  that is already held would spin forever in a sequential run: the outcome \<open>LockHeld\<close>.
\<close>

definition lockAcquire ::
  "nat \<Rightarrow> ('c, 'f) AccessTrackerBase \<Rightarrow> error + ('c, 'f) AccessTrackerBase" where
  "lockAcquire idx s =
     (if \<not> idx < length (locks s) then Inl OutOfRange
      else if locks s ! idx then Inl LockHeld
      else Inr (s\<lparr>locks := (locks s)[idx := True]\<rparr>))"

definition lockRelease :: "nat \<Rightarrow> ('c, 'f) AccessTrackerBase \<Rightarrow> ('c, 'f) AccessTrackerBase" where
  "lockRelease idx s = s\<lparr>locks := (locks s)[idx := False]\<rparr>"

subsection \<open>Bucket operations under the lock\<close>

definition getBucketAccessCountLocked ::
  "('c, 'f) Collab \<Rightarrow> nat \<Rightarrow> 64 word \<Rightarrow> ('c, 'f) AccessTrackerBase \<Rightarrow> error + real" where
  "getBucketAccessCountLocked B idx hashVal s =
     (if useCounts (config s) then
        (if idx < length (counts s) then Inr (cmsGetCount B (counts s ! idx) hashVal)
         else Inl OutOfRange)
      else Inr (if bfCouldExist B (filters s) idx hashVal then 1 else 0))"

definition updateBucketLocked ::
  "('c, 'f) Collab \<Rightarrow> nat \<Rightarrow> 64 word \<Rightarrow> ('c, 'f) AccessTrackerBase
     \<Rightarrow> error + ('c, 'f) AccessTrackerBase" where
  "updateBucketLocked B idx hashVal s =
     bindE
       (if useCounts (config s) then
          (if idx < length (counts s)
           then Inr (s\<lparr>counts := (counts s)[idx := cmsIncrement B (counts s ! idx) hashVal]\<rparr>)
           else Inl OutOfRange)
        else Inr (s\<lparr>filters := bfSet B (filters s) idx hashVal\<rparr>))
       (\<lambda>s1. if idx < length (itemCounts s1)
             then Inr (s1\<lparr>itemCounts := (itemCounts s1)[idx := itemCounts s1 ! idx + 1]\<rparr>)
             else Inl OutOfRange)"

definition resetBucketLocked ::
  "('c, 'f) Collab \<Rightarrow> nat \<Rightarrow> ('c, 'f) AccessTrackerBase
     \<Rightarrow> error + ('c, 'f) AccessTrackerBase" where
  "resetBucketLocked B idx s =
     bindE
       (if useCounts (config s) then
          (if idx < length (counts s)
           then Inr (s\<lparr>counts := (counts s)[idx := cmsReset B (counts s ! idx)]\<rparr>)
           else Inl OutOfRange)
        else Inr (s\<lparr>filters := bfClear B (filters s) idx\<rparr>))
       (\<lambda>s1. if idx < length (itemCounts s1)
             then Inr (s1\<lparr>itemCounts := (itemCounts s1)[idx := 0]\<rparr>)
             else Inl OutOfRange)"

subsection \<open>The rotation check\<close>

text \<open>
  \<open>updateMostRecentAccessedBucket\<close>: the target bucket is read once; each round of the
  loop loads the shared index, returns when the target is that bucket or the one before
  it, and otherwise tries the compare-and-swap.

  Other threads act on the shared index between the load and the compare-and-swap of a
  round. The argument \<open>stores\<close> lists the values they leave there, one per round; once
  the list is used up no other thread interferes. The compare-and-swap succeeds when the
  index still holds the loaded value. A sequential run is \<open>stores = []\<close>.
\<close>

fun updateLoop ::
  "('c, 'f) Collab \<Rightarrow> nat \<Rightarrow> nat list \<Rightarrow> ('c, 'f) AccessTrackerBase
     \<Rightarrow> error + ('c, 'f) AccessTrackerBase" where
  "updateLoop B bucketIdx [] s =
     (let mostRecent = mostRecentAccessedBucket s in
      if bucketIdx = mostRecent then Inr s
      else bindE (rotatedIdx s (bucketIdx + 1)) (\<lambda>nxt.
        if nxt = mostRecent then Inr s
        else bindE (lockAcquire bucketIdx (s\<lparr>mostRecentAccessedBucket := bucketIdx\<rparr>)) (\<lambda>s1.
             bindE (resetBucketLocked B bucketIdx s1) (\<lambda>s2.
             Inr (lockRelease bucketIdx s2)))))"
| "updateLoop B bucketIdx (v # stores) s =
     (let mostRecent = mostRecentAccessedBucket s in
      if bucketIdx = mostRecent then Inr s
      else bindE (rotatedIdx s (bucketIdx + 1)) (\<lambda>nxt.
        if nxt = mostRecent then Inr s
        else if v = mostRecent then
             bindE (lockAcquire bucketIdx (s\<lparr>mostRecentAccessedBucket := bucketIdx\<rparr>)) (\<lambda>s1.
             bindE (resetBucketLocked B bucketIdx s1) (\<lambda>s2.
             Inr (lockRelease bucketIdx s2)))
        else updateLoop B bucketIdx stores (s\<lparr>mostRecentAccessedBucket := v\<rparr>)))"

definition updateMostRecentAccessedBucketUnder ::
  "nat list \<Rightarrow> ('c, 'f) Collab \<Rightarrow> nat \<Rightarrow> ('c, 'f) AccessTrackerBase
     \<Rightarrow> error + ('c, 'f) AccessTrackerBase" where
  "updateMostRecentAccessedBucketUnder stores B tick s =
     bindE (getCurrentBucketIndex tick s) (\<lambda>bucketIdx. updateLoop B bucketIdx stores s)"

definition updateMostRecentAccessedBucket ::
  "('c, 'f) Collab \<Rightarrow> nat \<Rightarrow> ('c, 'f) AccessTrackerBase
     \<Rightarrow> error + ('c, 'f) AccessTrackerBase" where
  "updateMostRecentAccessedBucket B tick s = updateMostRecentAccessedBucketUnder [] B tick s"

subsection \<open>Public operations\<close>

definition recordAccess ::
  "('c, 'f) Collab \<Rightarrow> nat \<Rightarrow> string \<Rightarrow> ('c, 'f) AccessTrackerBase
     \<Rightarrow> error + ('c, 'f) AccessTrackerBase" where
  "recordAccess B tick key s =
     bindE (updateMostRecentAccessedBucket B tick s) (\<lambda>s1.
       let hashVal = hash64 B key kRandomSeed;
           idx = mostRecentAccessedBucket s1
       in bindE (lockAcquire idx s1) (\<lambda>s2.
          bindE (updateBucketLocked B idx hashVal s2) (\<lambda>s3.
          Inr (lockRelease idx s3))))"

text \<open>
  The loop of \<open>getAccesses\<close>, from iteration \<open>i\<close> on; \<open>n\<close> is the loop bound
  \<open>config.numBuckets\<close>.
\<close>

function getAccessesLoop ::
  "('c, 'f) Collab \<Rightarrow> 64 word \<Rightarrow> nat \<Rightarrow> nat \<Rightarrow> nat \<Rightarrow> real list \<Rightarrow> ('c, 'f) AccessTrackerBase
     \<Rightarrow> error + (real list \<times> ('c, 'f) AccessTrackerBase)" where
  "getAccessesLoop B hashVal mostRecentBucketIdx n i features s =
     (if i < n then
        (case rotatedIdx s (mostRecentBucketIdx + n - i) of
           Inl e \<Rightarrow> Inl e
         | Inr idx \<Rightarrow>
           (case lockAcquire idx s of
              Inl e \<Rightarrow> Inl e
            | Inr s1 \<Rightarrow>
              (case getBucketAccessCountLocked B idx hashVal s1 of
                 Inl e \<Rightarrow> Inl e
               | Inr v \<Rightarrow>
                 getAccessesLoop B hashVal mostRecentBucketIdx n (i + 1)
                   (features[i := v]) (lockRelease idx s1))))
      else Inr (features, s))"
  by pat_completeness auto
termination
  by (relation "measure (\<lambda>(B, hashVal, m, n, i, features, s). n - i)") auto

declare getAccessesLoop.simps [simp del]

definition getAccesses ::
  "('c, 'f) Collab \<Rightarrow> nat \<Rightarrow> string \<Rightarrow> ('c, 'f) AccessTrackerBase
     \<Rightarrow> error + (real list \<times> ('c, 'f) AccessTrackerBase)" where
  "getAccesses B tick key s =
     bindE (updateMostRecentAccessedBucket B tick s) (\<lambda>s1.
       let hashVal = hash64 B key kRandomSeed;
           mostRecentBucketIdx = mostRecentAccessedBucket s1;
           n = numBuckets (config s1)
       in getAccessesLoop B hashVal mostRecentBucketIdx n 0 (replicate n 0) s1)"

text \<open>
  \<open>recordAndPopulateAccessFeatures\<close> reads the ticker twice, once in each of the two
  calls it makes: \<open>tick1\<close> and \<open>tick2\<close>.
\<close>

definition recordAndPopulateAccessFeatures ::
  "('c, 'f) Collab \<Rightarrow> nat \<Rightarrow> nat \<Rightarrow> string \<Rightarrow> ('c, 'f) AccessTrackerBase
     \<Rightarrow> error + (real list \<times> ('c, 'f) AccessTrackerBase)" where
  "recordAndPopulateAccessFeatures B tick1 tick2 key s =
     bindE (getAccesses B tick1 key s) (\<lambda>(features, s1).
     bindE (recordAccess B tick2 key s1) (\<lambda>s2.
     Inr (features, s2)))"

text \<open>The loop of \<open>getRotatedAccessCounts\<close>; \<open>cnts\<close> is its local vector \<open>counts\<close>.\<close>

function getRotatedAccessCountsLoop ::
  "nat \<Rightarrow> nat \<Rightarrow> nat \<Rightarrow> 64 word list \<Rightarrow> ('c, 'f) AccessTrackerBase
     \<Rightarrow> error + (64 word list \<times> ('c, 'f) AccessTrackerBase)" where
  "getRotatedAccessCountsLoop currentBucketIdx n i cnts s =
     (if i < n then
        (case rotatedIdx s (currentBucketIdx + n - i) of
           Inl e \<Rightarrow> Inl e
         | Inr idx \<Rightarrow>
           (case lockAcquire idx s of
              Inl e \<Rightarrow> Inl e
            | Inr s1 \<Rightarrow>
              (if idx < length (itemCounts s1) then
                 getRotatedAccessCountsLoop currentBucketIdx n (i + 1)
                   (cnts[i := itemCounts s1 ! idx]) (lockRelease idx s1)
               else Inl OutOfRange)))
      else Inr (cnts, s))"
  by pat_completeness auto
termination
  by (relation "measure (\<lambda>(c, n, i, cnts, s). n - i)") auto

declare getRotatedAccessCountsLoop.simps [simp del]

definition getRotatedAccessCounts ::
  "nat \<Rightarrow> ('c, 'f) AccessTrackerBase
     \<Rightarrow> error + (64 word list \<times> ('c, 'f) AccessTrackerBase)" where
  "getRotatedAccessCounts tick s =
     bindE (getCurrentBucketIndex tick s) (\<lambda>currentBucketIdx.
       let n = numBuckets (config s)
       in getRotatedAccessCountsLoop currentBucketIdx n 0 (replicate n 0) s)"

subsection \<open>Well-formed trackers and the effects of the operations\<close>

text \<open>
  What the constructor establishes: the three vectors have \<open>numBuckets\<close> elements
  (\<open>counts\<close> only when the sketches are in use, and none otherwise), no lock is held,
  and the two sizes of the config are positive. \<open>wellFormed\<close> adds that the shared
  index is a bucket index.
\<close>

definition allocated :: "('c, 'f) AccessTrackerBase \<Rightarrow> bool" where
  "allocated s \<longleftrightarrow>
     1 \<le> numBuckets (config s) \<and>
     1 \<le> numTicksPerBucket (config s) \<and>
     locks s = replicate (numBuckets (config s)) False \<and>
     length (itemCounts s) = numBuckets (config s) \<and>
     length (counts s) = (if useCounts (config s) then numBuckets (config s) else 0)"

definition wellFormed :: "('c, 'f) AccessTrackerBase \<Rightarrow> bool" where
  "wellFormed s \<longleftrightarrow>
     allocated s \<and> mostRecentAccessedBucket s < numBuckets (config s)"

text \<open>The estimate the backend in use gives for a hash in bucket \<open>idx\<close>.\<close>

definition bucketEstimate ::
  "('c, 'f) Collab \<Rightarrow> ('c, 'f) AccessTrackerBase \<Rightarrow> nat \<Rightarrow> 64 word \<Rightarrow> real" where
  "bucketEstimate B s idx hashVal =
     (if useCounts (config s) then cmsGetCount B (counts s ! idx) hashVal
      else if bfCouldExist B (filters s) idx hashVal then 1 else 0)"

text \<open>
  The tracker after bucket \<open>idx\<close> has been reset, and after a hash has been recorded
  in it: the backend in use is reset (incremented) at \<open>idx\<close> and the raw counter at
  \<open>idx\<close> is set to zero (raised by one); nothing else changes.
\<close>

definition bucketReset ::
  "('c, 'f) Collab \<Rightarrow> nat \<Rightarrow> ('c, 'f) AccessTrackerBase \<Rightarrow> ('c, 'f) AccessTrackerBase" where
  "bucketReset B idx s =
     (if useCounts (config s)
      then s\<lparr>counts := (counts s)[idx := cmsReset B (counts s ! idx)],
             itemCounts := (itemCounts s)[idx := 0]\<rparr>
      else s\<lparr>filters := bfClear B (filters s) idx,
             itemCounts := (itemCounts s)[idx := 0]\<rparr>)"

definition bucketRecord ::
  "('c, 'f) Collab \<Rightarrow> nat \<Rightarrow> 64 word \<Rightarrow> ('c, 'f) AccessTrackerBase
     \<Rightarrow> ('c, 'f) AccessTrackerBase" where
  "bucketRecord B idx hashVal s =
     (if useCounts (config s)
      then s\<lparr>counts := (counts s)[idx := cmsIncrement B (counts s ! idx) hashVal],
             itemCounts := (itemCounts s)[idx := itemCounts s ! idx + 1]\<rparr>
      else s\<lparr>filters := bfSet B (filters s) idx hashVal,
             itemCounts := (itemCounts s)[idx := itemCounts s ! idx + 1]\<rparr>)"

definition targetBucket :: "nat \<Rightarrow> ('c, 'f) AccessTrackerBase \<Rightarrow> nat" where
  "targetBucket tick s = (tick div numTicksPerBucket (config s)) mod numBuckets (config s)"

text \<open>The test that ends the rotation check without a rotation.\<close>

definition noRotationNeeded :: "nat \<Rightarrow> nat \<Rightarrow> ('c, 'f) AccessTrackerBase \<Rightarrow> bool" where
  "noRotationNeeded target mostRecent s \<longleftrightarrow>
     target = mostRecent \<or> (target + 1) mod numBuckets (config s) = mostRecent"

text \<open>The tracker after a sequential rotation check at \<open>tick\<close>.\<close>

definition rotated ::
  "('c, 'f) Collab \<Rightarrow> nat \<Rightarrow> ('c, 'f) AccessTrackerBase \<Rightarrow> ('c, 'f) AccessTrackerBase" where
  "rotated B tick s =
     (if noRotationNeeded (targetBucket tick s) (mostRecentAccessedBucket s) s then s
      else bucketReset B (targetBucket tick s)
             (s\<lparr>mostRecentAccessedBucket := targetBucket tick s\<rparr>))"

text \<open>
  The trackers a program can hold without moving one: the constructed tracker, and what
  \<open>recordAccess\<close> and \<open>getAccesses\<close> leave when they return; the two other public
  operations are \<open>getAccesses\<close> followed by \<open>recordAccess\<close>, and
  \<open>getRotatedAccessCounts\<close>.
\<close>

inductive reachable ::
  "('c, 'f) Collab \<Rightarrow> Config \<Rightarrow> ('c, 'f) AccessTrackerBase \<Rightarrow> bool"
  for B :: "('c, 'f) Collab" and cfg :: Config where
  reachable_new: "reachable B cfg (newAccessTrackerBase B cfg)"
| reachable_recordAccess:
    "reachable B cfg s \<Longrightarrow> recordAccess B tick key s = Inr s' \<Longrightarrow> reachable B cfg s'"
| reachable_getAccesses:
    "reachable B cfg s \<Longrightarrow> getAccesses B tick key s = Inr (features, s')
       \<Longrightarrow> reachable B cfg s'"

subsection \<open>Sequences of calls\<close>











text \<open>
  What the footprint query needs of the collaborators: incrementing, setting, resetting
  and clearing leave the byte size of a sketch or of the filter bank as it is, and a
  filter bank without filters (default-constructed, or made for zero filters) has size 0.
\<close>

definition sizesStable :: "('c, 'f) Collab \<Rightarrow> bool" where
  "sizesStable B \<longleftrightarrow>
     (\<forall>c h. cmsGetByteSize B (cmsIncrement B c h) = cmsGetByteSize B c) \<and>
     (\<forall>c. cmsGetByteSize B (cmsReset B c) = cmsGetByteSize B c) \<and>
     (\<forall>f i h. bfGetByteSize B (bfSet B f i h) = bfGetByteSize B f) \<and>
     (\<forall>f i. bfGetByteSize B (bfClear B f i) = bfGetByteSize B f) \<and>
     bfGetByteSize B (bfDefault B) = 0 \<and>
     (\<forall>ops fp. bfGetByteSize B (makeBloomFilter B 0 ops fp) = 0)"


subsection \<open>A concrete set of collaborators\<close>

text \<open>
  Exact collaborators, for running the model on concrete inputs: a sketch that keeps the
  hashes it was given and counts them, a filter bank that keeps the pairs (bucket, hash)
  it was given together with its size in bytes, and a hash that adds the bytes of the key
  to the seed.
\<close>

definition exactCollab :: "(64 word list, nat \<times> (nat \<times> 64 word) list) Collab" where
  "exactCollab =
     \<lparr> hash64 = (\<lambda>key seed. of_nat (sum_list (map of_char key)) + seed),
       cmsNew = (\<lambda>cfg. []),
       cmsIncrement = (\<lambda>c h. h # c),
       cmsGetCount = (\<lambda>c h. real (count_list c h)),
       cmsReset = (\<lambda>c. []),
       cmsGetByteSize = (\<lambda>c. 64),
       bfDefault = (0, []),
       bfMovedFrom = (\<lambda>f. (0, [])),
       makeBloomFilter = (\<lambda>n ops fp. (8 * n, [])),
       bfSet = (\<lambda>f idx h. (fst f, (idx, h) # snd f)),
       bfCouldExist = (\<lambda>f idx h. (idx, h) \<in> set (snd f)),
       bfClear = (\<lambda>f idx. (fst f, filter (\<lambda>p. fst p \<noteq> idx) (snd f))),
       bfGetByteSize = fst \<rparr>"

definition exampleConfig :: "nat \<Rightarrow> nat \<Rightarrow> bool \<Rightarrow> Config" where
  "exampleConfig n t u =
     \<lparr> numBuckets = n, numTicksPerBucket = t, useCounts = u, maxNumOpsPerBucket = 100,
       cmsMaxErrorValue = 1, cmsErrorCertainity = 99 / 100, cmsMaxWidth = 80,
       cmsMaxDepth = 8, bfFalsePositiveRate = 2 / 100 \<rparr>"

text \<open>
  A tracker with three buckets of one tick each, after one access to the key \<open>a\<close> has
  been recorded in bucket 0.
\<close>

definition exampleTracker ::
  "(64 word list, nat \<times> (nat \<times> 64 word) list) AccessTrackerBase" where
  "exampleTracker =
     bucketRecord exactCollab 0 (hash64 exactCollab ''a'' kRandomSeed)
       (newAccessTrackerBase exactCollab (exampleConfig 3 1 True))"

text \<open>A tracker with two buckets of one tick each, after one access to \<open>a\<close> at tick 0.\<close>

definition twoBucketTracker ::
  "(64 word list, nat \<times> (nat \<times> 64 word) list) AccessTrackerBase" where
  "twoBucketTracker =
     bucketRecord exactCollab 0 (hash64 exactCollab ''a'' kRandomSeed)
       (newAccessTrackerBase exactCollab (exampleConfig 2 1 True))"

text \<open>A tracker with a single bucket, after one access to \<open>a\<close>.\<close>

definition singleBucketTracker ::
  "(64 word list, nat \<times> (nat \<times> 64 word) list) AccessTrackerBase" where
  "singleBucketTracker =
     bucketRecord exactCollab 0 (hash64 exactCollab ''a'' kRandomSeed)
       (newAccessTrackerBase exactCollab (exampleConfig 1 1 True))"

text \<open>
  The three-bucket tracker after accesses to \<open>a\<close>, \<open>b\<close> and \<open>c\<close> at the ticks 0, 1
  and 2.
\<close>

definition fullTracker ::
  "(64 word list, nat \<times> (nat \<times> 64 word) list) AccessTrackerBase" where
  "fullTracker =
     \<lparr> config = exampleConfig 3 1 True,
       mostRecentAccessedBucket = 2,
       filters = (0, []),
       counts = [[hash64 exactCollab ''a'' kRandomSeed],
                 [hash64 exactCollab ''b'' kRandomSeed],
                 [hash64 exactCollab ''c'' kRandomSeed]],
       locks = [False, False, False],
       itemCounts = [1, 1, 1] \<rparr>"

section \<open>Properties\<close>

subsection \<open>Locks and single buckets\<close>

lemma replicate_update_same:
  "(replicate n x)[i := x] = replicate n x"
  by (cases "i < n") (auto simp: list_eq_iff_nth_eq nth_list_update)

lemma replicate_relock:
  "(replicate n x)[i := y, i := x] = replicate n x"
  by (simp add: replicate_update_same)

lemma allocated_mostRecent [simp]:
  "allocated (s\<lparr>mostRecentAccessedBucket := m\<rparr>) = allocated s"
  by (simp add: allocated_def)

lemma lockAcquire_allocated:
  "allocated s \<Longrightarrow> idx < numBuckets (config s) \<Longrightarrow>
     lockAcquire idx s = Inr (s\<lparr>locks := (locks s)[idx := True]\<rparr>)"
  by (simp add: allocated_def lockAcquire_def)

lemma lockRelease_allocated:
  assumes "allocated s"
  shows "lockRelease idx (s\<lparr>locks := (locks s)[idx := True]\<rparr>) = s"
proof -
  have "(locks s)[idx := True, idx := False] = locks s"
    using assms by (simp add: allocated_def replicate_update_same)
  then show ?thesis
    by (simp add: lockRelease_def)
qed

lemma getBucketAccessCountLocked_allocated:
  "allocated s \<Longrightarrow> idx < numBuckets (config s) \<Longrightarrow>
     getBucketAccessCountLocked B idx h (s\<lparr>locks := l\<rparr>) = Inr (bucketEstimate B s idx h)"
  by (simp add: allocated_def getBucketAccessCountLocked_def bucketEstimate_def)

lemma locked_reset:
  assumes "allocated s" "idx < numBuckets (config s)"
  shows "bindE (lockAcquire idx s) (\<lambda>s1. bindE (resetBucketLocked B idx s1)
           (\<lambda>s2. Inr (lockRelease idx s2))) = Inr (bucketReset B idx s)"
  using assms
  by (simp add: allocated_def lockAcquire_def resetBucketLocked_def lockRelease_def
      bucketReset_def bindE_def replicate_relock replicate_update_same)

lemma locked_record:
  assumes "allocated s" "idx < numBuckets (config s)"
  shows "bindE (lockAcquire idx s) (\<lambda>s1. bindE (updateBucketLocked B idx h s1)
           (\<lambda>s2. Inr (lockRelease idx s2))) = Inr (bucketRecord B idx h s)"
  using assms
  by (simp add: allocated_def lockAcquire_def updateBucketLocked_def lockRelease_def
      bucketRecord_def bindE_def replicate_relock replicate_update_same)

subsection \<open>The rotation check on an allocated tracker\<close>

lemma getCurrentBucketIndex_allocated:
  "allocated s \<Longrightarrow> getCurrentBucketIndex tick s = Inr (targetBucket tick s)"
  by (simp add: allocated_def getCurrentBucketIndex_def rotatedIdx_def targetBucket_def)

lemma targetBucket_less:
  "allocated s \<Longrightarrow> targetBucket tick s < numBuckets (config s)"
  by (simp add: allocated_def targetBucket_def)

lemma rotatedIdx_allocated:
  "allocated s \<Longrightarrow> rotatedIdx s b = Inr (b mod numBuckets (config s))"
  by (simp add: allocated_def rotatedIdx_def)

lemma updateLoop_return:
  assumes "allocated s" "noRotationNeeded b (mostRecentAccessedBucket s) s"
  shows "updateLoop B b stores s = Inr s"
  using assms
  by (cases stores) (auto simp: rotatedIdx_allocated noRotationNeeded_def bindE_def Let_def)

lemma updateLoop_cas_success:
  assumes "allocated s" "b < numBuckets (config s)"
    "\<not> noRotationNeeded b (mostRecentAccessedBucket s) s"
    "stores = [] \<or> hd stores = mostRecentAccessedBucket s"
  shows "updateLoop B b stores s = Inr (bucketReset B b (s\<lparr>mostRecentAccessedBucket := b\<rparr>))"
proof -
  have "bindE (lockAcquire b (s\<lparr>mostRecentAccessedBucket := b\<rparr>))
          (\<lambda>s1. bindE (resetBucketLocked B b s1) (\<lambda>s2. Inr (lockRelease b s2)))
        = Inr (bucketReset B b (s\<lparr>mostRecentAccessedBucket := b\<rparr>))"
    using assms(1,2) by (intro locked_reset) simp_all
  then show ?thesis
    using assms
    by (cases stores) (auto simp: rotatedIdx_allocated noRotationNeeded_def bindE_def Let_def)
qed

lemma updateLoop_cas_failure:
  assumes "allocated s" "\<not> noRotationNeeded b (mostRecentAccessedBucket s) s"
    "v \<noteq> mostRecentAccessedBucket s"
  shows "updateLoop B b (v # stores) s
           = updateLoop B b stores (s\<lparr>mostRecentAccessedBucket := v\<rparr>)"
  using assms
  by (auto simp: rotatedIdx_allocated noRotationNeeded_def bindE_def Let_def)

lemma updateLoop_total:
  assumes "allocated s" "b < numBuckets (config s)"
  shows "\<exists>s'. updateLoop B b stores s = Inr s'"
  using assms
proof (induction stores arbitrary: s)
  case Nil
  then show ?case
    by (cases "noRotationNeeded b (mostRecentAccessedBucket s) s")
      (simp_all add: updateLoop_return updateLoop_cas_success del: updateLoop.simps)
next
  case (Cons v stores)
  show ?case
  proof (cases "noRotationNeeded b (mostRecentAccessedBucket s) s")
    case True
    with Cons.prems show ?thesis by (simp add: updateLoop_return del: updateLoop.simps)
  next
    case False
    show ?thesis
    proof (cases "v = mostRecentAccessedBucket s")
      case True
      with False Cons.prems show ?thesis by (simp add: updateLoop_cas_success del: updateLoop.simps)
    next
      case neq: False
      have "updateLoop B b (v # stores) s
              = updateLoop B b stores (s\<lparr>mostRecentAccessedBucket := v\<rparr>)"
        using Cons.prems False neq by (intro updateLoop_cas_failure)
      moreover have "\<exists>s'. updateLoop B b stores (s\<lparr>mostRecentAccessedBucket := v\<rparr>) = Inr s'"
        using Cons.prems by (intro Cons.IH) simp_all
      ultimately show ?thesis by simp
    qed
  qed
qed


lemma bucketReset_fields [simp]:
  "config (bucketReset B idx s) = config s"
  "mostRecentAccessedBucket (bucketReset B idx s) = mostRecentAccessedBucket s"
  "locks (bucketReset B idx s) = locks s"
  "length (counts (bucketReset B idx s)) = length (counts s)"
  "length (itemCounts (bucketReset B idx s)) = length (itemCounts s)"
  by (simp_all add: bucketReset_def)

lemma bucketRecord_fields [simp]:
  "config (bucketRecord B idx h s) = config s"
  "mostRecentAccessedBucket (bucketRecord B idx h s) = mostRecentAccessedBucket s"
  "locks (bucketRecord B idx h s) = locks s"
  "length (counts (bucketRecord B idx h s)) = length (counts s)"
  "length (itemCounts (bucketRecord B idx h s)) = length (itemCounts s)"
  by (simp_all add: bucketRecord_def)

lemma allocated_bucketReset [simp]:
  "allocated (bucketReset B idx s) = allocated s"
  by (simp add: allocated_def)

lemma allocated_bucketRecord [simp]:
  "allocated (bucketRecord B idx h s) = allocated s"
  by (simp add: allocated_def)

lemma rotated_config [simp]: "config (rotated B tick s) = config s"
  by (simp add: rotated_def)

lemma allocated_rotated [simp]: "allocated (rotated B tick s) = allocated s"
  by (simp add: rotated_def)

lemma wellFormed_rotated:
  assumes "allocated s"
  shows "wellFormed (rotated B tick s)"
proof -
  have n: "0 < numBuckets (config s)"
    using assms by (simp add: allocated_def)
  have t: "targetBucket tick s < numBuckets (config s)"
    using assms by (rule targetBucket_less)
  show ?thesis
  proof (cases "noRotationNeeded (targetBucket tick s) (mostRecentAccessedBucket s) s")
    case True
    then have "mostRecentAccessedBucket s = targetBucket tick s \<or>
        mostRecentAccessedBucket s = (targetBucket tick s + 1) mod numBuckets (config s)"
      by (auto simp: noRotationNeeded_def)
    then have "mostRecentAccessedBucket s < numBuckets (config s)"
      using t n by (elim disjE) simp_all
    with True assms show ?thesis
      by (simp add: wellFormed_def rotated_def)
  next
    case False
    with assms t show ?thesis
      by (simp add: wellFormed_def rotated_def)
  qed
qed

lemma updateMostRecentAccessedBucket_allocated:
  assumes "allocated s"
  shows "updateMostRecentAccessedBucket B tick s = Inr (rotated B tick s)"
proof (cases "noRotationNeeded (targetBucket tick s) (mostRecentAccessedBucket s) s")
  case True
  with assms show ?thesis
    by (simp add: updateMostRecentAccessedBucket_def updateMostRecentAccessedBucketUnder_def
        getCurrentBucketIndex_allocated bindE_def updateLoop_return rotated_def
        del: updateLoop.simps)
next
  case False
  with assms show ?thesis
    by (simp add: updateMostRecentAccessedBucket_def updateMostRecentAccessedBucketUnder_def
        getCurrentBucketIndex_allocated bindE_def updateLoop_cas_success targetBucket_less
        rotated_def del: updateLoop.simps)
qed

subsection \<open>The public operations on an allocated tracker\<close>

lemma recordAccess_allocated:
  assumes "allocated s"
  shows "recordAccess B tick key s =
           Inr (bucketRecord B (mostRecentAccessedBucket (rotated B tick s))
                  (hash64 B key kRandomSeed) (rotated B tick s))"
proof -
  have wf: "wellFormed (rotated B tick s)"
    using assms by (rule wellFormed_rotated)
  then have "bindE (lockAcquire (mostRecentAccessedBucket (rotated B tick s)) (rotated B tick s))
          (\<lambda>s2. bindE (updateBucketLocked B (mostRecentAccessedBucket (rotated B tick s))
                        (hash64 B key kRandomSeed) s2)
            (\<lambda>s3. Inr (lockRelease (mostRecentAccessedBucket (rotated B tick s)) s3)))
        = Inr (bucketRecord B (mostRecentAccessedBucket (rotated B tick s))
                  (hash64 B key kRandomSeed) (rotated B tick s))"
    by (intro locked_record) (simp_all add: wellFormed_def)
  then show ?thesis
    using assms
    by (simp add: recordAccess_def updateMostRecentAccessedBucket_allocated bindE_def Let_def)
qed

lemma getAccessesLoop_allocated:
  assumes "allocated s" "n = numBuckets (config s)" "i \<le> n" "length features = n"
  shows "getAccessesLoop B h m n i features s =
           Inr (take i features @ map (\<lambda>j. bucketEstimate B s ((m + n - j) mod n) h) [i..<n], s)"
  using assms(3,4)
proof (induction "n - i" arbitrary: i features)
  case 0
  then show ?case
    by (subst getAccessesLoop.simps) simp
next
  case (Suc k)
  then have lt: "i < n" by simp
  let ?idx = "(m + n - i) mod n"
  have idx: "?idx < numBuckets (config s)"
    using assms(1,2) by (simp add: allocated_def)
  have step: "getAccessesLoop B h m n i features s =
      getAccessesLoop B h m n (i + 1) (features[i := bucketEstimate B s ?idx h]) s"
    using assms(1,2) lt idx
    by (subst getAccessesLoop.simps)
      (simp add: rotatedIdx_allocated lockAcquire_allocated
        getBucketAccessCountLocked_allocated lockRelease_allocated)
  have "getAccessesLoop B h m n (i + 1) (features[i := bucketEstimate B s ?idx h]) s =
      Inr (take (i + 1) (features[i := bucketEstimate B s ?idx h]) @
           map (\<lambda>j. bucketEstimate B s ((m + n - j) mod n) h) [i + 1..<n], s)"
    using Suc.hyps(2) Suc.prems lt by (intro Suc.hyps(1)) simp_all
  moreover have "take (i + 1) (features[i := bucketEstimate B s ?idx h]) @
           map (\<lambda>j. bucketEstimate B s ((m + n - j) mod n) h) [i + 1..<n]
         = take i features @ map (\<lambda>j. bucketEstimate B s ((m + n - j) mod n) h) [i..<n]"
    using lt Suc.prems by (simp add: take_Suc_conv_app_nth upt_conv_Cons)
  ultimately show ?case
    using step by simp
qed

lemma getAccesses_allocated:
  assumes "allocated s"
  shows "getAccesses B tick key s =
           Inr (map (\<lambda>i. bucketEstimate B (rotated B tick s)
                          ((mostRecentAccessedBucket (rotated B tick s) + numBuckets (config s) - i)
                              mod numBuckets (config s))
                          (hash64 B key kRandomSeed))
                  [0..<numBuckets (config s)],
                rotated B tick s)"
  using assms
  by (simp add: getAccesses_def updateMostRecentAccessedBucket_allocated bindE_def Let_def
      getAccessesLoop_allocated)

lemma getRotatedAccessCountsLoop_allocated:
  assumes "allocated s" "n = numBuckets (config s)" "i \<le> n" "length cnts = n"
  shows "getRotatedAccessCountsLoop c n i cnts s =
           Inr (take i cnts @ map (\<lambda>j. itemCounts s ! ((c + n - j) mod n)) [i..<n], s)"
  using assms(3,4)
proof (induction "n - i" arbitrary: i cnts)
  case 0
  then show ?case
    by (subst getRotatedAccessCountsLoop.simps) simp
next
  case (Suc k)
  then have lt: "i < n" by simp
  let ?idx = "(c + n - i) mod n"
  have idx: "?idx < numBuckets (config s)"
    using assms(1,2) by (simp add: allocated_def)
  have len: "length (itemCounts s) = numBuckets (config s)"
    using assms(1) by (simp add: allocated_def)
  have step: "getRotatedAccessCountsLoop c n i cnts s =
      getRotatedAccessCountsLoop c n (i + 1) (cnts[i := itemCounts s ! ?idx]) s"
    using assms(1,2) lt idx len
    by (subst getRotatedAccessCountsLoop.simps)
      (simp add: rotatedIdx_allocated lockAcquire_allocated lockRelease_allocated)
  have "getRotatedAccessCountsLoop c n (i + 1) (cnts[i := itemCounts s ! ?idx]) s =
      Inr (take (i + 1) (cnts[i := itemCounts s ! ?idx]) @
           map (\<lambda>j. itemCounts s ! ((c + n - j) mod n)) [i + 1..<n], s)"
    using Suc.hyps(2) Suc.prems lt by (intro Suc.hyps(1)) simp_all
  moreover have "take (i + 1) (cnts[i := itemCounts s ! ?idx]) @
           map (\<lambda>j. itemCounts s ! ((c + n - j) mod n)) [i + 1..<n]
         = take i cnts @ map (\<lambda>j. itemCounts s ! ((c + n - j) mod n)) [i..<n]"
    using lt Suc.prems by (simp add: take_Suc_conv_app_nth upt_conv_Cons)
  ultimately show ?case
    using step by simp
qed

lemma getRotatedAccessCounts_allocated:
  assumes "allocated s"
  shows "getRotatedAccessCounts tick s =
           Inr (map (\<lambda>i. itemCounts s !
                          ((targetBucket tick s + numBuckets (config s) - i)
                              mod numBuckets (config s)))
                  [0..<numBuckets (config s)],
                s)"
  using assms
  by (simp add: getRotatedAccessCounts_def getCurrentBucketIndex_allocated bindE_def Let_def
      getRotatedAccessCountsLoop_allocated)


subsection \<open>The constructed tracker and the example\<close>

lemma wellFormed_new:
  assumes "1 \<le> numBuckets cfg" "1 \<le> numTicksPerBucket cfg"
  shows "wellFormed (newAccessTrackerBase B cfg)"
  using assms by (simp add: wellFormed_def allocated_def newAccessTrackerBase_def)

lemma allocated_new:
  assumes "1 \<le> numBuckets cfg" "1 \<le> numTicksPerBucket cfg"
  shows "allocated (newAccessTrackerBase B cfg)"
  using assms by (simp add: allocated_def newAccessTrackerBase_def)

lemma new_fields [simp]:
  "config (newAccessTrackerBase B cfg) = cfg"
  "mostRecentAccessedBucket (newAccessTrackerBase B cfg) = 0"
  "itemCounts (newAccessTrackerBase B cfg) = replicate (numBuckets cfg) 0"
  "locks (newAccessTrackerBase B cfg) = replicate (numBuckets cfg) False"
  by (simp_all add: newAccessTrackerBase_def)

lemma exampleConfig_fields [simp]:
  "numBuckets (exampleConfig n t u) = n"
  "numTicksPerBucket (exampleConfig n t u) = t"
  "useCounts (exampleConfig n t u) = u"
  by (simp_all add: exampleConfig_def)

lemma allocated_exampleTracker: "allocated exampleTracker"
  by (simp add: exampleTracker_def allocated_new)

lemma exampleTracker_config [simp]: "config exampleTracker = exampleConfig 3 1 True"
  by (simp add: exampleTracker_def)

lemma exampleTracker_reached:
  "recordAccess exactCollab 0 ''a'' (newAccessTrackerBase exactCollab (exampleConfig 3 1 True))
     = Inr exampleTracker"
  by (simp add: recordAccess_allocated allocated_new rotated_def noRotationNeeded_def
      targetBucket_def exampleTracker_def)

lemmas example_defs =
  exampleTracker_def bucketRecord_def bucketReset_def newAccessTrackerBase_def
  exampleConfig_def rotated_def targetBucket_def noRotationNeeded_def bucketEstimate_def

section \<open>The claims\<close>

subsection \<open>C1: the rotation check\<close>

text \<open>
  C1. On a tracker as the constructor leaves it, the rotation check computes the target
  bucket \<open>(tick div numTicksPerBucket) mod numBuckets\<close>. When the target is the shared
  index, or the bucket after the target is, the check returns the tracker unchanged.
  Otherwise, when the compare-and-swap finds the index as it was loaded (no other thread
  stored to it, or stored the same value), the index becomes the target and the target's
  backend and raw counter are reset, once; when another thread has stored a different
  value, this thread resets nothing in that round and runs the whole check again from the
  new index. The check always returns. \<open>recordAccess\<close> and \<open>getAccesses\<close> run it
  first, and the state \<open>getAccesses\<close> leaves is the state the check leaves.
\<close>

theorem rotation_check_protocol:
  assumes "allocated s"
  shows "getCurrentBucketIndex tick s = Inr (targetBucket tick s) \<and>
    (noRotationNeeded (targetBucket tick s) (mostRecentAccessedBucket s) s \<longrightarrow>
       updateMostRecentAccessedBucketUnder stores B tick s = Inr s) \<and>
    (\<not> noRotationNeeded (targetBucket tick s) (mostRecentAccessedBucket s) s \<and>
     (stores = [] \<or> hd stores = mostRecentAccessedBucket s) \<longrightarrow>
       updateMostRecentAccessedBucketUnder stores B tick s =
         Inr (bucketReset B (targetBucket tick s)
                (s\<lparr>mostRecentAccessedBucket := targetBucket tick s\<rparr>))) \<and>
    (\<forall>v rest. \<not> noRotationNeeded (targetBucket tick s) (mostRecentAccessedBucket s) s \<and>
        stores = v # rest \<and> v \<noteq> mostRecentAccessedBucket s \<longrightarrow>
       updateMostRecentAccessedBucketUnder stores B tick s =
         updateMostRecentAccessedBucketUnder rest B tick (s\<lparr>mostRecentAccessedBucket := v\<rparr>)) \<and>
    (\<exists>s'. updateMostRecentAccessedBucketUnder stores B tick s = Inr s') \<and>
    recordAccess B tick key s =
      bindE (updateMostRecentAccessedBucketUnder [] B tick s)
        (\<lambda>s1. Inr (bucketRecord B (mostRecentAccessedBucket s1) (hash64 B key kRandomSeed) s1)) \<and>
    bindE (getAccesses B tick key s) (\<lambda>r. Inr (snd r)) =
      updateMostRecentAccessedBucketUnder [] B tick s"
proof -
  let ?t = "targetBucket tick s"
  have cur: "getCurrentBucketIndex tick s = Inr ?t"
    using assms by (rule getCurrentBucketIndex_allocated)
  have lt: "?t < numBuckets (config s)"
    using assms by (rule targetBucket_less)
  have under: "updateMostRecentAccessedBucketUnder st B tick s = updateLoop B ?t st s" for st
    by (simp add: updateMostRecentAccessedBucketUnder_def cur bindE_def)
  have under': "updateMostRecentAccessedBucketUnder st B tick (s\<lparr>mostRecentAccessedBucket := v\<rparr>)
      = updateLoop B ?t st (s\<lparr>mostRecentAccessedBucket := v\<rparr>)" for st v
    using assms
    by (simp add: updateMostRecentAccessedBucketUnder_def getCurrentBucketIndex_allocated
        bindE_def targetBucket_def)
  have seq: "updateMostRecentAccessedBucketUnder [] B tick s = Inr (rotated B tick s)"
    using updateMostRecentAccessedBucket_allocated [OF assms, of B tick]
    by (simp add: updateMostRecentAccessedBucket_def)
  have c2: "noRotationNeeded ?t (mostRecentAccessedBucket s) s \<longrightarrow>
       updateMostRecentAccessedBucketUnder stores B tick s = Inr s"
    using assms by (simp add: under updateLoop_return del: updateLoop.simps)
  have c3: "\<not> noRotationNeeded ?t (mostRecentAccessedBucket s) s \<and>
     (stores = [] \<or> hd stores = mostRecentAccessedBucket s) \<longrightarrow>
       updateMostRecentAccessedBucketUnder stores B tick s =
         Inr (bucketReset B ?t (s\<lparr>mostRecentAccessedBucket := ?t\<rparr>))"
    using assms lt by (auto simp: under updateLoop_cas_success simp del: updateLoop.simps)
  have c4: "\<forall>v rest. \<not> noRotationNeeded ?t (mostRecentAccessedBucket s) s \<and>
        stores = v # rest \<and> v \<noteq> mostRecentAccessedBucket s \<longrightarrow>
       updateMostRecentAccessedBucketUnder stores B tick s =
         updateMostRecentAccessedBucketUnder rest B tick (s\<lparr>mostRecentAccessedBucket := v\<rparr>)"
    using assms by (auto simp: under under' updateLoop_cas_failure simp del: updateLoop.simps)
  have c5: "\<exists>s'. updateMostRecentAccessedBucketUnder stores B tick s = Inr s'"
    using updateLoop_total [OF assms lt] by (simp add: under)
  have c6: "recordAccess B tick key s =
      bindE (updateMostRecentAccessedBucketUnder [] B tick s)
        (\<lambda>s1. Inr (bucketRecord B (mostRecentAccessedBucket s1) (hash64 B key kRandomSeed) s1))"
    using assms by (simp add: seq recordAccess_allocated bindE_def)
  have c7: "bindE (getAccesses B tick key s) (\<lambda>r. Inr (snd r)) =
      updateMostRecentAccessedBucketUnder [] B tick s"
    using assms by (simp add: seq getAccesses_allocated bindE_def)
  show ?thesis
    using cur c2 c3 c4 c5 c6 c7 by blast
qed

theorem rotation_check_protocol_witness:
  "allocated exampleTracker \<and>
   getCurrentBucketIndex 1 exampleTracker = Inr 1 \<and>
   noRotationNeeded (targetBucket 3 exampleTracker) (mostRecentAccessedBucket exampleTracker)
     exampleTracker \<and>
   updateMostRecentAccessedBucketUnder [] exactCollab 3 exampleTracker = Inr exampleTracker \<and>
   \<not> noRotationNeeded (targetBucket 1 exampleTracker) (mostRecentAccessedBucket exampleTracker)
     exampleTracker \<and>
   updateMostRecentAccessedBucketUnder [] exactCollab 1 exampleTracker =
     Inr (bucketReset exactCollab 1 (exampleTracker\<lparr>mostRecentAccessedBucket := 1\<rparr>)) \<and>
   updateMostRecentAccessedBucketUnder [2] exactCollab 1 exampleTracker =
     updateMostRecentAccessedBucketUnder [] exactCollab 1
       (exampleTracker\<lparr>mostRecentAccessedBucket := 2\<rparr>) \<and>
   updateMostRecentAccessedBucketUnder [] exactCollab 1
       (exampleTracker\<lparr>mostRecentAccessedBucket := 2\<rparr>) =
     Inr (exampleTracker\<lparr>mostRecentAccessedBucket := 2\<rparr>)"
proof -
  have m: "mostRecentAccessedBucket exampleTracker = 0"
    by (simp add: exampleTracker_def)
  have t1: "targetBucket 1 exampleTracker = 1" and t3: "targetBucket 3 exampleTracker = 0"
    by (simp_all add: targetBucket_def)
  have n1: "\<not> noRotationNeeded (targetBucket 1 exampleTracker)
      (mostRecentAccessedBucket exampleTracker) exampleTracker"
    by (simp add: noRotationNeeded_def targetBucket_def m)
  have n3: "noRotationNeeded (targetBucket 3 exampleTracker)
      (mostRecentAccessedBucket exampleTracker) exampleTracker"
    by (simp add: noRotationNeeded_def targetBucket_def m)
  have a2: "allocated (exampleTracker\<lparr>mostRecentAccessedBucket := 2\<rparr>)"
    by (simp add: allocated_exampleTracker)
  have n2: "noRotationNeeded (targetBucket 1 (exampleTracker\<lparr>mostRecentAccessedBucket := 2\<rparr>))
      (mostRecentAccessedBucket (exampleTracker\<lparr>mostRecentAccessedBucket := 2\<rparr>))
      (exampleTracker\<lparr>mostRecentAccessedBucket := 2\<rparr>)"
    by (simp add: noRotationNeeded_def targetBucket_def)
  show ?thesis
    using rotation_check_protocol [OF allocated_exampleTracker, of 1 "[]" exactCollab "''a''"]
      rotation_check_protocol [OF allocated_exampleTracker, of 3 "[]" exactCollab "''a''"]
      rotation_check_protocol [OF allocated_exampleTracker, of 1 "[2]" exactCollab "''a''"]
      rotation_check_protocol [OF a2, of 1 "[]" exactCollab "''a''"]
      allocated_exampleTracker n1 n2 n3 m t1
    by simp
qed

subsection \<open>C2: the feature vector\<close>

text \<open>
  C2. On a tracker as the constructor leaves it (so \<open>numBuckets \<ge> 1\<close>),
  \<open>getAccesses key\<close> returns a vector of length \<open>numBuckets\<close> whose position \<open>i\<close>
  is the estimate for the hash of the key in bucket
  \<open>(mostRecent + numBuckets - i) mod numBuckets\<close>, where \<open>mostRecent\<close> is the shared
  index after the rotation check: most recent bucket first.
\<close>

theorem getAccesses_most_recent_first:
  assumes "allocated s"
  shows "\<exists>features s'.
     getAccesses B tick key s = Inr (features, s') \<and>
     updateMostRecentAccessedBucket B tick s = Inr s' \<and>
     length features = numBuckets (config s) \<and>
     (\<forall>i < numBuckets (config s).
        features ! i =
          bucketEstimate B s'
            ((mostRecentAccessedBucket s' + numBuckets (config s) - i) mod numBuckets (config s))
            (hash64 B key kRandomSeed))"
  using assms
  by (simp add: getAccesses_allocated updateMostRecentAccessedBucket_allocated)

theorem getAccesses_most_recent_first_witness:
  "allocated exampleTracker \<and>
   (\<exists>features s'.
     getAccesses exactCollab 1 ''a'' exampleTracker = Inr (features, s') \<and>
     updateMostRecentAccessedBucket exactCollab 1 exampleTracker = Inr s' \<and>
     mostRecentAccessedBucket s' = 1 \<and>
     length features = 3 \<and>
     features ! 0 = 0 \<and> features ! 1 = 1 \<and> features ! 2 = 0)"
proof -
  obtain features s' where
    g: "getAccesses exactCollab 1 ''a'' exampleTracker = Inr (features, s')" and
    u: "updateMostRecentAccessedBucket exactCollab 1 exampleTracker = Inr s'" and
    l: "length features = numBuckets (config exampleTracker)" and
    f: "\<forall>i < numBuckets (config exampleTracker). features ! i =
          bucketEstimate exactCollab s'
            ((mostRecentAccessedBucket s' + numBuckets (config exampleTracker) - i)
               mod numBuckets (config exampleTracker))
            (hash64 exactCollab ''a'' kRandomSeed)"
    using getAccesses_most_recent_first [OF allocated_exampleTracker, of exactCollab 1 "''a''"]
    by blast
  have s': "s' = rotated exactCollab 1 exampleTracker"
    using u by (simp add: updateMostRecentAccessedBucket_allocated allocated_exampleTracker)
  have m: "mostRecentAccessedBucket s' = 1"
    by (simp add: s' example_defs)
  have "features ! 0 = bucketEstimate exactCollab s' 1 (hash64 exactCollab ''a'' kRandomSeed)"
    using f m by simp
  then have f0: "features ! 0 = 0"
    by (simp add: s' example_defs exactCollab_def)
  have "features ! 1 = bucketEstimate exactCollab s' 0 (hash64 exactCollab ''a'' kRandomSeed)"
    using f m by simp
  then have f1: "features ! 1 = 1"
    by (simp add: s' example_defs exactCollab_def)
  have "features ! 2 = bucketEstimate exactCollab s' 2 (hash64 exactCollab ''a'' kRandomSeed)"
    using f m by simp
  then have f2: "features ! 2 = 0"
    by (simp add: s' example_defs exactCollab_def)
  show ?thesis
    using allocated_exampleTracker g u m l f0 f1 f2 by simp
qed

subsection \<open>C5: the raw counts\<close>

lemma rotated_index_cases:
  assumes "allocated s"
  shows "mostRecentAccessedBucket (rotated B tick s) = targetBucket tick s \<or>
         mostRecentAccessedBucket (rotated B tick s)
           = (targetBucket tick s + 1) mod numBuckets (config s)"
proof (cases "noRotationNeeded (targetBucket tick s) (mostRecentAccessedBucket s) s")
  case True
  then show ?thesis
    by (auto simp: rotated_def noRotationNeeded_def)
next
  case False
  then show ?thesis
    by (simp add: rotated_def)
qed

lemma mod_walk:
  assumes "k \<le> (n::nat)"
  shows "(x mod n + n - k) mod n = (x + n - k) mod n"
proof -
  have "(x mod n + n - k) = x mod n + (n - k)" "x + n - k = x + (n - k)"
    using assms by arith+
  then show ?thesis
    by (simp only: mod_add_left_eq)
qed

lemma walk_shifted:
  assumes "i < (n::nat)"
  shows "(t + n - i) mod n = ((t + 1) mod n + n - (i + 1)) mod n"
proof -
  have "((t + 1) mod n + n - (i + 1)) mod n = (t + 1 + n - (i + 1)) mod n"
    using assms by (intro mod_walk) arith
  moreover have "t + 1 + n - (i + 1) = t + n - i"
    by arith
  ultimately show ?thesis
    by (simp only:)
qed

lemma twoBucketTracker_allocated: "allocated twoBucketTracker"
  by (simp add: twoBucketTracker_def allocated_new)

lemma twoBucketTracker_fields:
  "config twoBucketTracker = exampleConfig 2 1 True"
  "mostRecentAccessedBucket twoBucketTracker = 0"
  "itemCounts twoBucketTracker = [1, 0]"
  "counts twoBucketTracker = [[hash64 exactCollab ''a'' kRandomSeed], []]"
  by (simp_all add: twoBucketTracker_def bucketRecord_def newAccessTrackerBase_def
      numeral_2_eq_2)
    (simp add: exactCollab_def)

lemma twoBucketTracker_rotated:
  "rotated exactCollab (Suc 0) twoBucketTracker = twoBucketTracker"
  by (simp add: rotated_def noRotationNeeded_def targetBucket_def twoBucketTracker_fields)

text \<open>
  C5 as stated fails: the walk of \<open>getRotatedAccessCounts\<close> is not the walk of
  \<open>getAccesses\<close>. On the tracker with two buckets and one access to \<open>a\<close> at tick 0,
  at tick 1 the rotation check leaves the shared index at bucket 0 (the bucket after the
  target is the shared index), so \<open>getAccesses\<close> starts at bucket 0 and returns
  \<open>[1, 0]\<close>, while \<open>getRotatedAccessCounts\<close> starts at bucket 1, the bucket of the
  tick, and returns \<open>[0, 1]\<close>: its position 0 is not the bucket that holds the access.
\<close>

theorem raw_count_walk_starts_elsewhere:
  "recordAccess exactCollab 0 ''a'' (newAccessTrackerBase exactCollab (exampleConfig 2 1 True))
     = Inr twoBucketTracker \<and>
   getAccesses exactCollab 1 ''a'' twoBucketTracker = Inr ([1, 0], twoBucketTracker) \<and>
   getRotatedAccessCounts 1 twoBucketTracker = Inr ([0, 1], twoBucketTracker) \<and>
   mostRecentAccessedBucket twoBucketTracker = 0 \<and>
   targetBucket 1 twoBucketTracker = 1 \<and>
   itemCounts twoBucketTracker = [1, 0]"
proof -
  have a: "recordAccess exactCollab 0 ''a''
      (newAccessTrackerBase exactCollab (exampleConfig 2 1 True)) = Inr twoBucketTracker"
    by (simp add: recordAccess_allocated allocated_new rotated_def noRotationNeeded_def
        targetBucket_def twoBucketTracker_def)
  have u: "[0..<2] = [0, 1]"
    by (simp add: numeral_2_eq_2)
  have g: "getAccesses exactCollab 1 ''a'' twoBucketTracker = Inr ([1, 0], twoBucketTracker)"
    using twoBucketTracker_rotated
    by (simp add: getAccesses_allocated twoBucketTracker_allocated twoBucketTracker_fields u
        bucketEstimate_def)
      (simp add: exactCollab_def)
  have c: "getRotatedAccessCounts 1 twoBucketTracker = Inr ([0, 1], twoBucketTracker)"
    by (simp add: getRotatedAccessCounts_allocated twoBucketTracker_allocated
        twoBucketTracker_fields u targetBucket_def)
  have t: "targetBucket 1 twoBucketTracker = 1"
    by (simp add: targetBucket_def twoBucketTracker_fields)
  show ?thesis
    using a g c t by (simp add: twoBucketTracker_fields)
qed

text \<open>
  C5, amended. \<open>getRotatedAccessCounts\<close> returns a vector of length \<open>numBuckets\<close>
  whose position \<open>i\<close> is the raw counter of bucket
  \<open>(current + numBuckets - i) mod numBuckets\<close>, where \<open>current\<close> is the bucket of the
  current tick; position 0 is the counter of that bucket. The index formula is the one
  of \<open>getAccesses\<close>, the starting point is not: \<open>getAccesses\<close> starts at the shared
  index, which after the rotation check is \<open>current\<close> or the bucket after it, and in
  the second case position \<open>i\<close> of the raw counts is the bucket at position \<open>i + 1\<close>
  of the walk of \<open>getAccesses\<close>.
\<close>

theorem getRotatedAccessCounts_walk:
  assumes "allocated s"
  shows "\<exists>cnts features s'.
     getRotatedAccessCounts tick s = Inr (cnts, s) \<and>
     length cnts = numBuckets (config s) \<and>
     (\<forall>i < numBuckets (config s).
        cnts ! i =
          itemCounts s !
            ((targetBucket tick s + numBuckets (config s) - i) mod numBuckets (config s))) \<and>
     cnts ! 0 = itemCounts s ! targetBucket tick s \<and>
     getAccesses B tick key s = Inr (features, s') \<and>
     length features = numBuckets (config s) \<and>
     (\<forall>i < numBuckets (config s).
        features ! i =
          bucketEstimate B s'
            ((mostRecentAccessedBucket s' + numBuckets (config s) - i) mod numBuckets (config s))
            (hash64 B key kRandomSeed)) \<and>
     (mostRecentAccessedBucket s' = targetBucket tick s \<or>
      mostRecentAccessedBucket s' = (targetBucket tick s + 1) mod numBuckets (config s)) \<and>
     (mostRecentAccessedBucket s' = (targetBucket tick s + 1) mod numBuckets (config s) \<longrightarrow>
        (\<forall>i < numBuckets (config s).
           (targetBucket tick s + numBuckets (config s) - i) mod numBuckets (config s)
             = (mostRecentAccessedBucket s' + numBuckets (config s) - (i + 1))
                 mod numBuckets (config s)))"
proof -
  let ?n = "numBuckets (config s)"
  let ?s' = "rotated B tick s"
  have n: "0 < ?n"
    using assms by (simp add: allocated_def)
  have t: "targetBucket tick s < ?n"
    using assms by (rule targetBucket_less)
  have c: "getRotatedAccessCounts tick s =
      Inr (map (\<lambda>i. itemCounts s ! ((targetBucket tick s + ?n - i) mod ?n)) [0..<?n], s)"
    using assms by (rule getRotatedAccessCounts_allocated)
  have g: "getAccesses B tick key s =
      Inr (map (\<lambda>i. bucketEstimate B ?s' ((mostRecentAccessedBucket ?s' + ?n - i) mod ?n)
                      (hash64 B key kRandomSeed)) [0..<?n], ?s')"
    using assms by (rule getAccesses_allocated)
  have m: "mostRecentAccessedBucket ?s' = targetBucket tick s \<or>
      mostRecentAccessedBucket ?s' = (targetBucket tick s + 1) mod ?n"
    using assms by (rule rotated_index_cases)
  have sh: "mostRecentAccessedBucket ?s' = (targetBucket tick s + 1) mod ?n \<longrightarrow>
        (\<forall>i < ?n. (targetBucket tick s + ?n - i) mod ?n
             = (mostRecentAccessedBucket ?s' + ?n - (i + 1)) mod ?n)"
  proof (intro impI allI)
    fix i
    assume e: "mostRecentAccessedBucket ?s' = (targetBucket tick s + 1) mod ?n" and i: "i < ?n"
    show "(targetBucket tick s + ?n - i) mod ?n
             = (mostRecentAccessedBucket ?s' + ?n - (i + 1)) mod ?n"
      unfolding e using i by (rule walk_shifted)
  qed
  have c0: "map (\<lambda>i. itemCounts s ! ((targetBucket tick s + ?n - i) mod ?n)) [0..<?n] ! 0
      = itemCounts s ! targetBucket tick s"
    using n t by simp
  show ?thesis
    unfolding c g using n m sh c0 by simp
qed


theorem getRotatedAccessCounts_walk_witness:
  "allocated twoBucketTracker \<and>
   (\<exists>cnts features s'.
      getRotatedAccessCounts 1 twoBucketTracker = Inr (cnts, twoBucketTracker) \<and>
      getAccesses exactCollab 1 ''a'' twoBucketTracker = Inr (features, s') \<and>
      length cnts = 2 \<and> cnts ! 0 = 0 \<and> cnts ! 1 = 1 \<and>
      length features = 2 \<and> features ! 0 = 1 \<and> features ! 1 = 0 \<and>
      targetBucket 1 twoBucketTracker = 1 \<and>
      mostRecentAccessedBucket s' = (targetBucket 1 twoBucketTracker + 1) mod 2)"
proof -
  let ?h = "hash64 exactCollab ''a'' kRandomSeed"
  have n: "numBuckets (config twoBucketTracker) = 2"
    by (simp add: twoBucketTracker_fields)
  have t: "targetBucket 1 twoBucketTracker = 1"
    by (simp add: targetBucket_def twoBucketTracker_fields)
  obtain cnts features s' where
    c: "getRotatedAccessCounts 1 twoBucketTracker = Inr (cnts, twoBucketTracker)" and
    lc: "length cnts = 2" and
    ci: "\<forall>i < 2. cnts ! i = itemCounts twoBucketTracker ! ((1 + 2 - i) mod 2)" and
    g: "getAccesses exactCollab 1 ''a'' twoBucketTracker = Inr (features, s')" and
    lf: "length features = 2" and
    fi: "\<forall>i < 2. features ! i =
           bucketEstimate exactCollab s' ((mostRecentAccessedBucket s' + 2 - i) mod 2) ?h"
    using getRotatedAccessCounts_walk [OF twoBucketTracker_allocated, of 1 exactCollab "''a''",
        unfolded n t]
    by blast
  have s': "s' = twoBucketTracker"
    using g twoBucketTracker_rotated
    by (simp add: getAccesses_allocated twoBucketTracker_allocated)
  have m: "mostRecentAccessedBucket s' = (targetBucket 1 twoBucketTracker + 1) mod 2"
    unfolding t by (simp add: s' twoBucketTracker_fields)
  have "cnts ! 0 = itemCounts twoBucketTracker ! ((1 + 2 - 0) mod 2)"
    using ci by simp
  then have c0: "cnts ! 0 = 0"
    by (simp add: twoBucketTracker_fields)
  have "cnts ! 1 = itemCounts twoBucketTracker ! ((1 + 2 - 1) mod 2)"
    using ci by simp
  then have c1: "cnts ! 1 = 1"
    by (simp add: twoBucketTracker_fields)
  have "features ! 0 = bucketEstimate exactCollab s' ((mostRecentAccessedBucket s' + 2 - 0) mod 2) ?h"
    using fi by simp
  then have f0: "features ! 0 = 1"
    by (simp add: s' twoBucketTracker_fields bucketEstimate_def) (simp add: exactCollab_def)
  have "features ! 1 = bucketEstimate exactCollab s' ((mostRecentAccessedBucket s' + 2 - 1) mod 2) ?h"
    using fi by simp
  then have f1: "features ! 1 = 0"
    by (simp add: s' twoBucketTracker_fields bucketEstimate_def) (simp add: exactCollab_def)
  show ?thesis
    using twoBucketTracker_allocated c g lc c0 c1 lf f0 f1 t m by blast
qed


subsection \<open>C10: the raw count query changes nothing\<close>

lemma lockAcquire_release:
  assumes "lockAcquire idx s = Inr s1"
  shows "lockRelease idx s1 = s"
proof -
  have lt: "idx < length (locks s)" and free: "\<not> locks s ! idx"
    and s1: "s1 = s\<lparr>locks := (locks s)[idx := True]\<rparr>"
    using assms by (auto simp: lockAcquire_def split: if_splits)
  have "(locks s)[idx := True, idx := False] = locks s"
    using lt free by (simp add: list_update_same_conv)
  then show ?thesis
    by (simp add: s1 lockRelease_def)
qed

lemma getRotatedAccessCountsLoop_state:
  "getRotatedAccessCountsLoop c n i cnts s = Inr (r, s') \<Longrightarrow> s' = s"
proof (induction c n i cnts s rule: getRotatedAccessCountsLoop.induct)
  case (1 c n i cnts s)
  show ?case
  proof (cases "i < n")
    case False
    with "1.prems" show ?thesis
      by (subst (asm) getRotatedAccessCountsLoop.simps) simp
  next
    case True
    from "1.prems" True obtain idx s1 where
      idx: "rotatedIdx s (c + n - i) = Inr idx" and
      acq: "lockAcquire idx s = Inr s1" and
      rng: "idx < length (itemCounts s1)" and
      rec: "getRotatedAccessCountsLoop c n (i + 1) (cnts[i := itemCounts s1 ! idx])
              (lockRelease idx s1) = Inr (r, s')"
      by (subst (asm) getRotatedAccessCountsLoop.simps)
        (auto split: sum.splits if_splits)
    have "s' = lockRelease idx s1"
      using True idx acq rng rec by (intro "1.IH") simp_all
    then show ?thesis
      using acq by (simp add: lockAcquire_release)
  qed
qed

lemma getRotatedAccessCounts_state:
  "getRotatedAccessCounts tick s = Inr (cnts, s') \<Longrightarrow> s' = s"
  by (auto simp: getRotatedAccessCounts_def bindE_def Let_def split: sum.splits
      dest: getRotatedAccessCountsLoop_state)

text \<open>
  C10. \<open>getRotatedAccessCounts\<close> leaves every tracker on which it returns exactly as it
  found it: backends, raw counters, shared index and locks. It runs no rotation check:
  on an allocated tracker it returns, its walk starts at the bucket of the current tick,
  and the vector it returns is the same whatever the shared index holds.
\<close>

theorem getRotatedAccessCounts_read_only:
  "(\<forall>cnts s'. getRotatedAccessCounts tick s = Inr (cnts, s') \<longrightarrow> s' = s) \<and>
   (allocated s \<longrightarrow>
      (\<exists>cnts. getRotatedAccessCounts tick s = Inr (cnts, s) \<and>
         cnts ! 0 = itemCounts s ! targetBucket tick s \<and>
         (\<forall>m. getRotatedAccessCounts tick (s\<lparr>mostRecentAccessedBucket := m\<rparr>)
                = Inr (cnts, s\<lparr>mostRecentAccessedBucket := m\<rparr>))))"
proof -
  have a: "\<forall>cnts s'. getRotatedAccessCounts tick s = Inr (cnts, s') \<longrightarrow> s' = s"
    by (auto dest: getRotatedAccessCounts_state)
  have b: "\<exists>cnts. getRotatedAccessCounts tick s = Inr (cnts, s) \<and>
         cnts ! 0 = itemCounts s ! targetBucket tick s \<and>
         (\<forall>m. getRotatedAccessCounts tick (s\<lparr>mostRecentAccessedBucket := m\<rparr>)
                = Inr (cnts, s\<lparr>mostRecentAccessedBucket := m\<rparr>))" if al: "allocated s"
  proof -
    have "0 < numBuckets (config s)"
      using al by (simp add: allocated_def)
    moreover have "targetBucket tick s < numBuckets (config s)"
      using al by (rule targetBucket_less)
    ultimately show ?thesis
      using al by (simp add: getRotatedAccessCounts_allocated targetBucket_def)
  qed
  show ?thesis
    using a b by blast
qed

theorem getRotatedAccessCounts_read_only_witness:
  "allocated exampleTracker \<and>
   (\<exists>cnts. getRotatedAccessCounts 1 exampleTracker = Inr (cnts, exampleTracker) \<and>
      cnts ! 0 = itemCounts exampleTracker ! targetBucket 1 exampleTracker \<and>
      getRotatedAccessCounts 1 (exampleTracker\<lparr>mostRecentAccessedBucket := 2\<rparr>)
        = Inr (cnts, exampleTracker\<lparr>mostRecentAccessedBucket := 2\<rparr>)) \<and>
   mostRecentAccessedBucket exampleTracker = 0 \<and>
   targetBucket 1 exampleTracker = 1 \<and>
   updateMostRecentAccessedBucket exactCollab 1 exampleTracker
     = Inr (bucketReset exactCollab 1 (exampleTracker\<lparr>mostRecentAccessedBucket := 1\<rparr>))"
proof -
  have r: "updateMostRecentAccessedBucket exactCollab 1 exampleTracker
     = Inr (bucketReset exactCollab 1 (exampleTracker\<lparr>mostRecentAccessedBucket := 1\<rparr>))"
    by (simp add: updateMostRecentAccessedBucket_allocated allocated_exampleTracker)
      (simp add: rotated_def noRotationNeeded_def targetBucket_def exampleTracker_def)
  have m: "mostRecentAccessedBucket exampleTracker = 0"
    by (simp add: exampleTracker_def)
  have t: "targetBucket 1 exampleTracker = 1"
    by (simp add: targetBucket_def)
  show ?thesis
    using getRotatedAccessCounts_read_only [of 1 exampleTracker] allocated_exampleTracker r m t
    by blast
qed


subsection \<open>C9: bucket indices stay in range\<close>

lemma getCurrentBucketIndex_zero:
  "numBuckets (config s) = 0 \<or> numTicksPerBucket (config s) = 0 \<Longrightarrow>
     getCurrentBucketIndex tick s = Inl DivideByZero"
  by (auto simp: getCurrentBucketIndex_def rotatedIdx_def)

lemma getCurrentBucketIndex_Inr:
  "getCurrentBucketIndex tick s = Inr b \<Longrightarrow>
     1 \<le> numBuckets (config s) \<and> 1 \<le> numTicksPerBucket (config s)"
  by (auto simp: getCurrentBucketIndex_def rotatedIdx_def split: if_splits)

lemma updateMostRecentAccessedBucket_Inr:
  "updateMostRecentAccessedBucket B tick s = Inr s' \<Longrightarrow>
     1 \<le> numBuckets (config s) \<and> 1 \<le> numTicksPerBucket (config s)"
  by (auto simp: updateMostRecentAccessedBucket_def updateMostRecentAccessedBucketUnder_def
      bindE_def split: sum.splits dest: getCurrentBucketIndex_Inr)

lemma recordAccess_Inr:
  "recordAccess B tick key s = Inr s' \<Longrightarrow>
     1 \<le> numBuckets (config s) \<and> 1 \<le> numTicksPerBucket (config s)"
  unfolding recordAccess_def bindE_def
  by (auto split: sum.splits dest: updateMostRecentAccessedBucket_Inr)

lemma getAccesses_Inr:
  "getAccesses B tick key s = Inr r \<Longrightarrow>
     1 \<le> numBuckets (config s) \<and> 1 \<le> numTicksPerBucket (config s)"
  unfolding getAccesses_def bindE_def
  by (auto split: sum.splits dest: updateMostRecentAccessedBucket_Inr)

lemma wellFormed_recorded:
  assumes "allocated s"
  shows "wellFormed (bucketRecord B (mostRecentAccessedBucket (rotated B tick s)) h
                       (rotated B tick s))"
  using wellFormed_rotated [OF assms, of B tick] by (simp add: wellFormed_def)

lemma reachable_shape:
  assumes "reachable B cfg s"
  shows "config s = cfg \<and>
         (s = newAccessTrackerBase B cfg \<or> wellFormed s)"
  using assms
proof (induction rule: reachable.induct)
  case reachable_new
  show ?case by simp
next
  case (reachable_recordAccess s tick key s')
  have ok: "1 \<le> numBuckets (config s) \<and> 1 \<le> numTicksPerBucket (config s)"
    using reachable_recordAccess.hyps(2) by (rule recordAccess_Inr)
  have "allocated (newAccessTrackerBase B cfg)"
    using ok reachable_recordAccess.IH by (intro allocated_new) simp_all
  then have al: "allocated s"
    using reachable_recordAccess.IH by (auto simp: wellFormed_def)
  have "s' = bucketRecord B (mostRecentAccessedBucket (rotated B tick s))
               (hash64 B key kRandomSeed) (rotated B tick s)"
    using reachable_recordAccess.hyps(2) by (simp add: recordAccess_allocated [OF al])
  then show ?case
    using reachable_recordAccess.IH wellFormed_recorded [OF al] by simp
next
  case (reachable_getAccesses s tick key features s')
  have ok: "1 \<le> numBuckets (config s) \<and> 1 \<le> numTicksPerBucket (config s)"
    using reachable_getAccesses.hyps(2) by (rule getAccesses_Inr)
  have "allocated (newAccessTrackerBase B cfg)"
    using ok reachable_getAccesses.IH by (intro allocated_new) simp_all
  then have al: "allocated s"
    using reachable_getAccesses.IH by (auto simp: wellFormed_def)
  have "s' = rotated B tick s"
    using reachable_getAccesses.hyps(2) by (simp add: getAccesses_allocated [OF al])
  then show ?case
    using reachable_getAccesses.IH wellFormed_rotated [OF al] by simp
qed

lemma reachable_allocated:
  assumes "reachable B cfg s"
    "1 \<le> numBuckets (config s) \<and> 1 \<le> numTicksPerBucket (config s)"
  shows "allocated s"
proof -
  have cf: "config s = cfg" and
    d: "s = newAccessTrackerBase B cfg \<or> wellFormed s"
    using reachable_shape [OF assms(1)] by simp_all
  have "allocated (newAccessTrackerBase B cfg)"
    using assms(2) cf by (intro allocated_new) simp_all
  then show ?thesis
    using d by (auto simp: wellFormed_def)
qed

lemma reachable_wellFormed:
  assumes "reachable B cfg s" "1 \<le> numBuckets cfg" "1 \<le> numTicksPerBucket cfg"
  shows "wellFormed s"
proof -
  have "s = newAccessTrackerBase B cfg \<or> wellFormed s"
    using reachable_shape [OF assms(1)] by simp
  moreover have "wellFormed (newAccessTrackerBase B cfg)"
    using assms(2,3) by (rule wellFormed_new)
  ultimately show ?thesis by auto
qed

lemma recordAndPopulateAccessFeatures_allocated:
  assumes "allocated s"
  shows "recordAndPopulateAccessFeatures B tick1 tick2 key s =
           Inr (map (\<lambda>i. bucketEstimate B (rotated B tick1 s)
                          ((mostRecentAccessedBucket (rotated B tick1 s) + numBuckets (config s) - i)
                              mod numBuckets (config s))
                          (hash64 B key kRandomSeed))
                  [0..<numBuckets (config s)],
                bucketRecord B (mostRecentAccessedBucket (rotated B tick2 (rotated B tick1 s)))
                  (hash64 B key kRandomSeed) (rotated B tick2 (rotated B tick1 s)))"
  using assms
  by (simp add: recordAndPopulateAccessFeatures_def getAccesses_allocated
      recordAccess_allocated bindE_def)

text \<open>
  C9. With \<open>numBuckets \<ge> 1\<close> and \<open>numTicksPerBucket \<ge> 1\<close>, every tracker reached from
  the constructor by the public operations keeps its three vectors at \<open>numBuckets\<close>
  elements and its shared index below \<open>numBuckets\<close>; the rotation target, the index
  \<open>recordAccess\<close> loads after the rotation check and every index of a walk are below
  \<open>numBuckets\<close>, and each public operation returns a value, so no access is out of range
  and nothing is divided by zero. With \<open>numBuckets = 0\<close> or \<open>numTicksPerBucket = 0\<close>
  the computation of the current bucket divides by zero, and so does every operation that
  starts with it.
\<close>

theorem bucket_indices_in_range:
  "(1 \<le> numBuckets cfg \<and> 1 \<le> numTicksPerBucket cfg \<and> reachable B cfg s \<longrightarrow>
      wellFormed s \<and> numBuckets (config s) = numBuckets cfg \<and>
      length (locks s) = numBuckets cfg \<and> length (itemCounts s) = numBuckets cfg \<and>
      (useCounts cfg \<longrightarrow> length (counts s) = numBuckets cfg) \<and>
      (\<exists>b. getCurrentBucketIndex tick s = Inr b \<and> b < numBuckets cfg) \<and>
      (\<exists>s1. updateMostRecentAccessedBucket B tick s = Inr s1 \<and>
            mostRecentAccessedBucket s1 < numBuckets cfg) \<and>
      (\<forall>m i. \<exists>idx. rotatedIdx s (m + numBuckets cfg - i) = Inr idx \<and> idx < numBuckets cfg) \<and>
      (\<exists>s'. recordAccess B tick key s = Inr s') \<and>
      (\<exists>features s'. getAccesses B tick key s = Inr (features, s')) \<and>
      (\<exists>features s'. recordAndPopulateAccessFeatures B tick tick2 key s = Inr (features, s')) \<and>
      (\<exists>cnts. getRotatedAccessCounts tick s = Inr (cnts, s))) \<and>
   (numBuckets (config s) = 0 \<or> numTicksPerBucket (config s) = 0 \<longrightarrow>
      getCurrentBucketIndex tick s = Inl DivideByZero \<and>
      recordAccess B tick key s = Inl DivideByZero \<and>
      getAccesses B tick key s = Inl DivideByZero \<and>
      getRotatedAccessCounts tick s = Inl DivideByZero)"
proof -
  have zero: "numBuckets (config s) = 0 \<or> numTicksPerBucket (config s) = 0 \<longrightarrow>
      getCurrentBucketIndex tick s = Inl DivideByZero \<and>
      recordAccess B tick key s = Inl DivideByZero \<and>
      getAccesses B tick key s = Inl DivideByZero \<and>
      getRotatedAccessCounts tick s = Inl DivideByZero"
  proof
    assume "numBuckets (config s) = 0 \<or> numTicksPerBucket (config s) = 0"
    then have "getCurrentBucketIndex tick s = Inl DivideByZero"
      by (rule getCurrentBucketIndex_zero)
    then show "getCurrentBucketIndex tick s = Inl DivideByZero \<and>
      recordAccess B tick key s = Inl DivideByZero \<and>
      getAccesses B tick key s = Inl DivideByZero \<and>
      getRotatedAccessCounts tick s = Inl DivideByZero"
      by (simp add: recordAccess_def getAccesses_def getRotatedAccessCounts_def
          updateMostRecentAccessedBucket_def updateMostRecentAccessedBucketUnder_def bindE_def)
  qed
  have good: "wellFormed s \<and> numBuckets (config s) = numBuckets cfg \<and>
      length (locks s) = numBuckets cfg \<and> length (itemCounts s) = numBuckets cfg \<and>
      (useCounts cfg \<longrightarrow> length (counts s) = numBuckets cfg) \<and>
      (\<exists>b. getCurrentBucketIndex tick s = Inr b \<and> b < numBuckets cfg) \<and>
      (\<exists>s1. updateMostRecentAccessedBucket B tick s = Inr s1 \<and>
            mostRecentAccessedBucket s1 < numBuckets cfg) \<and>
      (\<forall>m i. \<exists>idx. rotatedIdx s (m + numBuckets cfg - i) = Inr idx \<and> idx < numBuckets cfg) \<and>
      (\<exists>s'. recordAccess B tick key s = Inr s') \<and>
      (\<exists>features s'. getAccesses B tick key s = Inr (features, s')) \<and>
      (\<exists>features s'. recordAndPopulateAccessFeatures B tick tick2 key s = Inr (features, s')) \<and>
      (\<exists>cnts. getRotatedAccessCounts tick s = Inr (cnts, s))"
    if c: "1 \<le> numBuckets cfg" "1 \<le> numTicksPerBucket cfg" and r: "reachable B cfg s"
  proof -
    have wf: "wellFormed s" using r c by (rule reachable_wellFormed)
    have cf: "config s = cfg" using reachable_shape [OF r] by simp
    have al: "allocated s" using wf by (simp add: wellFormed_def)
    have t: "targetBucket tick s < numBuckets cfg"
      using targetBucket_less [OF al] cf by simp
    have m: "mostRecentAccessedBucket (rotated B tick s) < numBuckets cfg"
      using wellFormed_rotated [OF al, of B tick] cf by (simp add: wellFormed_def)
    have l: "length (locks s) = numBuckets cfg" "length (itemCounts s) = numBuckets cfg"
      "useCounts cfg \<longrightarrow> length (counts s) = numBuckets cfg"
      using al cf by (auto simp: allocated_def)
    have i: "\<forall>m i. \<exists>idx. rotatedIdx s (m + numBuckets cfg - i) = Inr idx \<and> idx < numBuckets cfg"
      using al cf c by (simp add: rotatedIdx_allocated)
    show ?thesis
      using wf cf t m l i
      by (simp add: getCurrentBucketIndex_allocated [OF al]
          updateMostRecentAccessedBucket_allocated [OF al] recordAccess_allocated [OF al]
          getAccesses_allocated [OF al] recordAndPopulateAccessFeatures_allocated [OF al]
          getRotatedAccessCounts_allocated [OF al])
  qed
  show ?thesis
    using zero good by blast
qed


theorem bucket_indices_in_range_witness:
  "reachable exactCollab (exampleConfig 3 1 True) exampleTracker \<and>
   wellFormed exampleTracker \<and>
   (\<exists>b. getCurrentBucketIndex 4 exampleTracker = Inr b \<and> b < 3) \<and>
   (\<exists>s'. recordAccess exactCollab 4 ''b'' exampleTracker = Inr s') \<and>
   (\<exists>features s'. getAccesses exactCollab 4 ''b'' exampleTracker = Inr (features, s')) \<and>
   (\<exists>cnts. getRotatedAccessCounts 4 exampleTracker = Inr (cnts, exampleTracker)) \<and>
   getAccesses exactCollab 4 ''b'' (newAccessTrackerBase exactCollab (exampleConfig 0 1 True))
     = Inl DivideByZero \<and>
   recordAccess exactCollab 4 ''b'' (newAccessTrackerBase exactCollab (exampleConfig 3 0 True))
     = Inl DivideByZero"
proof -
  have r: "reachable exactCollab (exampleConfig 3 1 True) exampleTracker"
    using reachable_new exampleTracker_reached by (rule reachable_recordAccess)
  have c: "1 \<le> numBuckets (exampleConfig 3 1 True)"
      "1 \<le> numTicksPerBucket (exampleConfig 3 1 True)"
    by simp_all
  have z: "numBuckets (config (newAccessTrackerBase exactCollab (exampleConfig 0 1 True))) = 0"
      "numTicksPerBucket (config (newAccessTrackerBase exactCollab (exampleConfig 3 0 True))) = 0"
    by simp_all
  show ?thesis
    using bucket_indices_in_range [of "exampleConfig 3 1 True" exactCollab exampleTracker
        4 "''b''" 4] r c
      bucket_indices_in_range [of "exampleConfig 3 1 True" exactCollab
        "newAccessTrackerBase exactCollab (exampleConfig 0 1 True)" 4 "''b''" 4] z(1)
      bucket_indices_in_range [of "exampleConfig 3 1 True" exactCollab
        "newAccessTrackerBase exactCollab (exampleConfig 3 0 True)" 4 "''b''" 4] z(2)
    by simp
qed

subsection \<open>C8: the footprint\<close>

lemma sum_list_const_size:
  "(\<forall>c \<in> set xs. f c = z) \<Longrightarrow> sum_list (map f xs) = length xs * z"
  by (induction xs) simp_all

lemma counts_sizes_update:
  assumes "\<forall>c \<in> set xs. f c = z" "f v = z"
  shows "\<forall>c \<in> set (xs[i := v]). f c = z"
  using assms set_update_subset_insert [of xs i v] by auto

lemma sizes_bucketReset:
  assumes "sizesStable B" "\<forall>c \<in> set (counts s). cmsGetByteSize B c = z"
  shows "bfGetByteSize B (filters (bucketReset B idx s)) = bfGetByteSize B (filters s) \<and>
         (\<forall>c \<in> set (counts (bucketReset B idx s)). cmsGetByteSize B c = z)"
proof (cases "idx < length (counts s)")
  case True
  then have "cmsGetByteSize B (cmsReset B (counts s ! idx)) = z"
    using assms by (simp add: sizesStable_def)
  then show ?thesis
    using assms counts_sizes_update [OF assms(2), of "cmsReset B (counts s ! idx)" idx]
    by (simp add: bucketReset_def sizesStable_def)
next
  case False
  then have "(counts s)[idx := cmsReset B (counts s ! idx)] = counts s"
    by (simp add: list_update_beyond not_less)
  then show ?thesis
    using assms by (simp add: bucketReset_def sizesStable_def)
qed

lemma sizes_bucketRecord:
  assumes "sizesStable B" "\<forall>c \<in> set (counts s). cmsGetByteSize B c = z"
  shows "bfGetByteSize B (filters (bucketRecord B idx h s)) = bfGetByteSize B (filters s) \<and>
         (\<forall>c \<in> set (counts (bucketRecord B idx h s)). cmsGetByteSize B c = z)"
proof (cases "idx < length (counts s)")
  case True
  then have "cmsGetByteSize B (cmsIncrement B (counts s ! idx) h) = z"
    using assms by (simp add: sizesStable_def)
  then show ?thesis
    using assms counts_sizes_update [OF assms(2), of "cmsIncrement B (counts s ! idx) h" idx]
    by (simp add: bucketRecord_def sizesStable_def)
next
  case False
  then have "(counts s)[idx := cmsIncrement B (counts s ! idx) h] = counts s"
    by (simp add: list_update_beyond not_less)
  then show ?thesis
    using assms by (simp add: bucketRecord_def sizesStable_def)
qed

lemma sizes_rotated:
  assumes "sizesStable B" "\<forall>c \<in> set (counts s). cmsGetByteSize B c = z"
  shows "bfGetByteSize B (filters (rotated B tick s)) = bfGetByteSize B (filters s) \<and>
         (\<forall>c \<in> set (counts (rotated B tick s)). cmsGetByteSize B c = z)"
proof (cases "noRotationNeeded (targetBucket tick s) (mostRecentAccessedBucket s) s")
  case True
  then show ?thesis using assms by (simp add: rotated_def)
next
  case False
  then show ?thesis
    using sizes_bucketReset [OF assms(1), of "s\<lparr>mostRecentAccessedBucket := targetBucket tick s\<rparr>"
        z "targetBucket tick s"] assms(2)
    by (simp add: rotated_def)
qed

lemma rotated_counts_length [simp]:
  "length (counts (rotated B tick s)) = length (counts s)"
  by (simp add: rotated_def)

lemma reachable_sizes:
  assumes "sizesStable B" "reachable B cfg s"
  shows "bfGetByteSize B (filters s) = bfGetByteSize B (filters (newAccessTrackerBase B cfg)) \<and>
         length (counts s) = length (counts (newAccessTrackerBase B cfg)) \<and>
         (\<forall>c \<in> set (counts s). cmsGetByteSize B c = cmsGetByteSize B (cmsNew B cfg))"
  using assms(2)
proof (induction rule: reachable.induct)
  case reachable_new
  show ?case by (simp add: newAccessTrackerBase_def)
next
  case (reachable_recordAccess s tick key s')
  have "allocated s"
    using reachable_recordAccess.hyps(1) recordAccess_Inr [OF reachable_recordAccess.hyps(2)]
    by (rule reachable_allocated)
  then have s': "s' = bucketRecord B (mostRecentAccessedBucket (rotated B tick s))
               (hash64 B key kRandomSeed) (rotated B tick s)"
    using reachable_recordAccess.hyps(2) by (simp add: recordAccess_allocated)
  have r: "bfGetByteSize B (filters (rotated B tick s)) = bfGetByteSize B (filters s) \<and>
         (\<forall>c \<in> set (counts (rotated B tick s)). cmsGetByteSize B c = cmsGetByteSize B (cmsNew B cfg))"
    using reachable_recordAccess.IH by (intro sizes_rotated assms(1)) simp
  show ?case
    using sizes_bucketRecord [OF assms(1), of "rotated B tick s" "cmsGetByteSize B (cmsNew B cfg)"
        "mostRecentAccessedBucket (rotated B tick s)" "hash64 B key kRandomSeed"]
      r reachable_recordAccess.IH
    by (simp add: s')
next
  case (reachable_getAccesses s tick key features s')
  have "allocated s"
    using reachable_getAccesses.hyps(1) getAccesses_Inr [OF reachable_getAccesses.hyps(2)]
    by (rule reachable_allocated)
  then have s': "s' = rotated B tick s"
    using reachable_getAccesses.hyps(2) by (simp add: getAccesses_allocated)
  have r: "bfGetByteSize B (filters (rotated B tick s)) = bfGetByteSize B (filters s) \<and>
         (\<forall>c \<in> set (counts (rotated B tick s)). cmsGetByteSize B c = cmsGetByteSize B (cmsNew B cfg))"
    using reachable_getAccesses.IH by (intro sizes_rotated assms(1)) simp
  show ?case
    using r reachable_getAccesses.IH by (simp add: s')
qed

lemma getByteSize_sum:
  assumes "\<forall>c \<in> set (counts s). cmsGetByteSize B c = z"
  shows "getByteSize B s = bfGetByteSize B (filters s) + length (counts s) * z"
    and "getByteSize B s =
           bfGetByteSize B (filters s) + sum_list (map (cmsGetByteSize B) (counts s))"
proof -
  show g: "getByteSize B s = bfGetByteSize B (filters s) + length (counts s) * z"
  proof (cases "counts s")
    case Nil
    then show ?thesis by (simp add: getByteSize_def)
  next
    case (Cons c cs)
    then have "cmsGetByteSize B (counts s ! 0) = z"
      using assms by simp
    then show ?thesis by (simp add: getByteSize_def Cons)
  qed
  show "getByteSize B s =
           bfGetByteSize B (filters s) + sum_list (map (cmsGetByteSize B) (counts s))"
    using g sum_list_const_size [of "counts s" "cmsGetByteSize B" z] assms by simp
qed

text \<open>
  C8. For collaborators whose operations keep byte sizes (and whose empty filter bank has
  size 0), on every tracker reached from the constructor \<open>getByteSize\<close> is the byte
  size of the filter bank plus the sum of the byte sizes of all sketches, it is 0 when
  there are no buckets, it is what it was right after construction, and
  \<open>recordAccess\<close>, \<open>getAccesses\<close> and the rotation check leave it unchanged.
\<close>

theorem getByteSize_fixed:
  assumes "sizesStable B" "reachable B cfg s"
  shows "getByteSize B s =
           bfGetByteSize B (filters s) + sum_list (map (cmsGetByteSize B) (counts s)) \<and>
         getByteSize B s = getByteSize B (newAccessTrackerBase B cfg) \<and>
         (numBuckets cfg = 0 \<longrightarrow> getByteSize B s = 0) \<and>
         (\<forall>tick key s'. recordAccess B tick key s = Inr s' \<longrightarrow>
            getByteSize B s' = getByteSize B s) \<and>
         (\<forall>tick key features s'. getAccesses B tick key s = Inr (features, s') \<longrightarrow>
            getByteSize B s' = getByteSize B s) \<and>
         (\<forall>tick s'. updateMostRecentAccessedBucket B tick s = Inr s' \<longrightarrow>
            getByteSize B s' = getByteSize B s)"
proof -
  let ?z = "cmsGetByteSize B (cmsNew B cfg)"
  let ?new = "newAccessTrackerBase B cfg"
  have fixed: "getByteSize B u = getByteSize B ?new" if "reachable B cfg u" for u
  proof -
    have u: "bfGetByteSize B (filters u) = bfGetByteSize B (filters ?new) \<and>
         length (counts u) = length (counts ?new) \<and>
         (\<forall>c \<in> set (counts u). cmsGetByteSize B c = ?z)"
      using assms(1) that by (rule reachable_sizes)
    have n: "\<forall>c \<in> set (counts ?new). cmsGetByteSize B c = ?z"
      by (simp add: newAccessTrackerBase_def)
    show ?thesis
      using getByteSize_sum(1) [of u B ?z] getByteSize_sum(1) [OF n] u by simp
  qed
  have inv: "bfGetByteSize B (filters s) = bfGetByteSize B (filters ?new) \<and>
         length (counts s) = length (counts ?new) \<and>
         (\<forall>c \<in> set (counts s). cmsGetByteSize B c = ?z)"
    using assms by (rule reachable_sizes)
  have a: "getByteSize B s =
           bfGetByteSize B (filters s) + sum_list (map (cmsGetByteSize B) (counts s))"
    using getByteSize_sum(2) [of s B ?z] inv by simp
  have b: "getByteSize B s = getByteSize B ?new"
    using assms(2) by (rule fixed)
  have c: "numBuckets cfg = 0 \<longrightarrow> getByteSize B s = 0"
    using assms(1) b by (auto simp: getByteSize_def newAccessTrackerBase_def sizesStable_def)
  have d: "\<forall>tick key s'. recordAccess B tick key s = Inr s' \<longrightarrow>
            getByteSize B s' = getByteSize B s"
    using fixed [OF reachable_recordAccess [OF assms(2)]] b by simp
  have e: "\<forall>tick key features s'. getAccesses B tick key s = Inr (features, s') \<longrightarrow>
            getByteSize B s' = getByteSize B s"
    using fixed [OF reachable_getAccesses [OF assms(2)]] b by simp
  have f: "\<forall>tick s'. updateMostRecentAccessedBucket B tick s = Inr s' \<longrightarrow>
            getByteSize B s' = getByteSize B s"
  proof (intro allI impI)
    fix tick s'
    assume u: "updateMostRecentAccessedBucket B tick s = Inr s'"
    have "allocated s"
      using assms(2) updateMostRecentAccessedBucket_Inr [OF u]
      by (rule reachable_allocated)
    then have "getAccesses B tick [] s =
        Inr (fst (projr (getAccesses B tick [] s)), s')"
      using u by (simp add: getAccesses_allocated updateMostRecentAccessedBucket_allocated)
    then show "getByteSize B s' = getByteSize B s"
      using e by blast
  qed
  show ?thesis
    using a b c d e f by blast
qed


lemma sizesStable_exactCollab: "sizesStable exactCollab"
  by (simp add: sizesStable_def exactCollab_def)

theorem getByteSize_fixed_witness:
  "sizesStable exactCollab \<and>
   reachable exactCollab (exampleConfig 3 1 True) exampleTracker \<and>
   getByteSize exactCollab exampleTracker = 192 \<and>
   getByteSize exactCollab (newAccessTrackerBase exactCollab (exampleConfig 3 1 True)) = 192 \<and>
   sum_list (map (cmsGetByteSize exactCollab) (counts exampleTracker)) = 192 \<and>
   reachable exactCollab (exampleConfig 0 1 True)
     (newAccessTrackerBase exactCollab (exampleConfig 0 1 True)) \<and>
   getByteSize exactCollab (newAccessTrackerBase exactCollab (exampleConfig 0 1 True)) = 0"
proof -
  have r: "reachable exactCollab (exampleConfig 3 1 True) exampleTracker"
    using reachable_new exampleTracker_reached by (rule reachable_recordAccess)
  have n: "getByteSize exactCollab (newAccessTrackerBase exactCollab (exampleConfig 3 1 True)) = 192"
    by (simp add: getByteSize_def newAccessTrackerBase_def exactCollab_def)
  have f: "bfGetByteSize exactCollab (filters exampleTracker) = 0"
    by (simp add: example_defs exactCollab_def)
  have z: "numBuckets (exampleConfig 0 1 True) = 0"
    by simp
  note big = getByteSize_fixed [OF sizesStable_exactCollab r]
  note empty = getByteSize_fixed [OF sizesStable_exactCollab reachable_new,
      of "exampleConfig 0 1 True"]
  have s: "getByteSize exactCollab exampleTracker = 192"
    using big n by simp
  have "getByteSize exactCollab exampleTracker =
      bfGetByteSize exactCollab (filters exampleTracker) +
      sum_list (map (cmsGetByteSize exactCollab) (counts exampleTracker))"
    using big by blast
  then have m: "sum_list (map (cmsGetByteSize exactCollab) (counts exampleTracker)) = 192"
    using s f by simp
  have e: "getByteSize exactCollab (newAccessTrackerBase exactCollab (exampleConfig 0 1 True)) = 0"
    using empty z by blast
  show ?thesis
    using sizesStable_exactCollab r s n m e reachable_new [of exactCollab "exampleConfig 0 1 True"]
    by blast
qed


subsection \<open>C6: moving a tracker\<close>

lemma exampleTracker_fields:
  "mostRecentAccessedBucket exampleTracker = 0"
  "locks exampleTracker = replicate 3 False"
  "itemCounts exampleTracker = [1, 0, 0]"
  "useCounts (config exampleTracker)"
  "length (counts exampleTracker) = 3"
  by (simp_all add: exampleTracker_def bucketRecord_def newAccessTrackerBase_def
      numeral_3_eq_3)

lemma moved_getRotatedAccessCounts:
  assumes "getCurrentBucketIndex tick s = Inr b" "\<exists>s1. lockAcquire b s = Inr s1"
    "itemCounts s = []"
  shows "getRotatedAccessCounts tick s = Inl OutOfRange"
proof -
  have n: "0 < numBuckets (config s)" and r: "b < numBuckets (config s)"
    using assms(1) 
    by (auto simp: getCurrentBucketIndex_def rotatedIdx_def split: if_splits)
  obtain s1 where s1: "lockAcquire b s = Inr s1"
    using assms(2) by blast
  then have i: "itemCounts s1 = []"
    using assms(3) by (auto simp: lockAcquire_def split: if_splits)
  have idx: "rotatedIdx s (b + numBuckets (config s) - 0) = Inr b"
    using n r by (simp add: rotatedIdx_def)
  show ?thesis
    unfolding getRotatedAccessCounts_def
    using n idx s1 i 
    by (subst getRotatedAccessCountsLoop.simps) (simp add: assms(1) bindE_def)
qed


lemma moved_recordAccess:
  assumes "allocated s"
  shows "recordAccess B tick key (s\<lparr>itemCounts := []\<rparr>) = Inl OutOfRange"
proof -
  let ?d = "s\<lparr>itemCounts := []\<rparr>"
  have cur: "getCurrentBucketIndex tick ?d = Inr (targetBucket tick s)"
    using assms
    by (simp add: allocated_def getCurrentBucketIndex_def rotatedIdx_def targetBucket_def)
  have lt: "targetBucket tick s < numBuckets (config s)"
    using assms by (rule targetBucket_less)
  have lk: "locks s = replicate (numBuckets (config s)) False"
    and cn: "length (counts s) = (if useCounts (config s) then numBuckets (config s) else 0)"
    and n: "0 < numBuckets (config s)"
    using assms by (simp_all add: allocated_def)
  have reset: "bindE (lockAcquire (targetBucket tick s) (?d\<lparr>mostRecentAccessedBucket := targetBucket tick s\<rparr>))
      (\<lambda>s1. bindE (resetBucketLocked B (targetBucket tick s) s1) (\<lambda>s2. Inr (lockRelease (targetBucket tick s) s2)))
      = Inl OutOfRange"
    using lt lk cn
    by (simp add: lockAcquire_def resetBucketLocked_def bindE_def)
  have up: "updateMostRecentAccessedBucket B tick ?d = Inl OutOfRange \<or>
      (updateMostRecentAccessedBucket B tick ?d = Inr ?d \<and>
       mostRecentAccessedBucket s < numBuckets (config s))"
  proof (cases "noRotationNeeded (targetBucket tick s) (mostRecentAccessedBucket s) s")
    case True
    then have "mostRecentAccessedBucket s = targetBucket tick s \<or>
        mostRecentAccessedBucket s = (targetBucket tick s + 1) mod numBuckets (config s)"
      by (auto simp: noRotationNeeded_def)
    then have "mostRecentAccessedBucket s < numBuckets (config s)"
      using lt n by (elim disjE) simp_all
    moreover have "updateMostRecentAccessedBucket B tick ?d = Inr ?d"
      using True n
      by (auto simp: updateMostRecentAccessedBucket_def updateMostRecentAccessedBucketUnder_def
          cur bindE_def noRotationNeeded_def rotatedIdx_def Let_def)
    ultimately show ?thesis by simp
  next
    case False
    then have "updateMostRecentAccessedBucket B tick ?d = Inl OutOfRange"
      using n reset
      by (auto simp: updateMostRecentAccessedBucket_def updateMostRecentAccessedBucketUnder_def
          cur noRotationNeeded_def rotatedIdx_def Let_def bindE_def)
    then show ?thesis by simp
  qed
  show ?thesis
  proof (rule disjE [OF up])
    assume "updateMostRecentAccessedBucket B tick ?d = Inl OutOfRange"
    then show ?thesis
      by (simp add: recordAccess_def bindE_def)
  next
    assume a: "updateMostRecentAccessedBucket B tick ?d = Inr ?d \<and>
       mostRecentAccessedBucket s < numBuckets (config s)"
    then show ?thesis
      using lk cn
      by (simp add: recordAccess_def bindE_def Let_def lockAcquire_def updateBucketLocked_def)
  qed
qed

text \<open>
  C6. The claim is that a move hands every bucket's raw counter over to the destination.
  The move constructor does not: on the tracker with three buckets and one recorded
  access, the raw counts are \<open>[1, 0, 0]\<close> before the move; the destination of the move
  (and of a move assignment) has no raw counters at all, so its raw count query and its
  \<open>recordAccess\<close> index an empty vector, while the object moved from still has
  \<open>numBuckets = 3\<close> in its config and keeps the counters.
\<close>

theorem move_drops_raw_counters:
  "getRotatedAccessCounts 0 exampleTracker = Inr ([1, 0, 0], exampleTracker) \<and>
   itemCounts (fst (moveConstruct exactCollab exampleTracker)) = [] \<and>
   getRotatedAccessCounts 0 (fst (moveConstruct exactCollab exampleTracker)) = Inl OutOfRange \<and>
   recordAccess exactCollab 0 ''a'' (fst (moveConstruct exactCollab exampleTracker))
     = Inl OutOfRange \<and>
   fst (moveAssign exactCollab False
          (newAccessTrackerBase exactCollab (exampleConfig 3 1 True)) exampleTracker)
     = fst (moveConstruct exactCollab exampleTracker) \<and>
   numBuckets (movedConfig (snd (moveConstruct exactCollab exampleTracker))) = 3 \<and>
   movedItemCounts (snd (moveConstruct exactCollab exampleTracker)) = [1, 0, 0]"
proof -
  let ?d = "fst (moveConstruct exactCollab exampleTracker)"
  have u: "[0..<3] = [0, 1, 2]"
    by (simp add: numeral_3_eq_3)
  have a: "getRotatedAccessCounts 0 exampleTracker = Inr ([1, 0, 0], exampleTracker)"
    by (simp add: getRotatedAccessCounts_allocated allocated_exampleTracker u
        exampleTracker_fields targetBucket_def)
  have d: "?d = exampleTracker\<lparr>itemCounts := []\<rparr>"
    by (simp add: moveConstruct_def exampleTracker_def bucketRecord_def newAccessTrackerBase_def)
  have b: "itemCounts ?d = []"
    by (simp add: d)
  have cur: "getCurrentBucketIndex 0 (exampleTracker\<lparr>itemCounts := []\<rparr>) = Inr 0"
    by (simp add: getCurrentBucketIndex_def rotatedIdx_def)
  have acq: "\<exists>s1. lockAcquire 0 (exampleTracker\<lparr>itemCounts := []\<rparr>) = Inr s1"
    by (simp add: lockAcquire_def exampleTracker_fields)
  have c: "getRotatedAccessCounts 0 ?d = Inl OutOfRange"
    unfolding d using cur acq by (rule moved_getRotatedAccessCounts) simp
  have e: "recordAccess exactCollab 0 ''a'' ?d = Inl OutOfRange"
    unfolding d using allocated_exampleTracker by (rule moved_recordAccess)
  have f: "fst (moveAssign exactCollab False
          (newAccessTrackerBase exactCollab (exampleConfig 3 1 True)) exampleTracker) = ?d"
    by (simp add: moveAssign_def)
  have g: "numBuckets (movedConfig (snd (moveConstruct exactCollab exampleTracker))) = 3"
    by (simp add: moveConstruct_def)
  have h: "movedItemCounts (snd (moveConstruct exactCollab exampleTracker)) = [1, 0, 0]"
    by (simp add: moveConstruct_def exampleTracker_fields)
  show ?thesis
    using a b c e f g h by simp
qed


subsection \<open>C7: what a rotation resets\<close>

lemma next_bucket_distinct:
  assumes "3 \<le> (n::nat)" "m < n"
  shows "(m + 1) mod n \<noteq> m" and "((m + 1) mod n + 1) mod n \<noteq> m"
proof -
  consider "m + 2 < n" | "m + 2 = n" | "m + 1 = n"
    using assms by linarith
  then show "(m + 1) mod n \<noteq> m"
    using assms by cases simp_all
  consider "m + 2 < n" | "m + 2 = n" | "m + 1 = n"
    using assms by linarith
  then show "((m + 1) mod n + 1) mod n \<noteq> m"
  proof cases
    case 1
    then show ?thesis by simp
  next
    case 2
    then have "(m + 1) mod n = m + 1" by simp
    then show ?thesis using 2 assms by simp
  next
    case 3
    then have "(m + 1) mod n = 0" by simp
    then show ?thesis using 3 assms by simp
  qed
qed

lemma targetBucket_next_span:
  assumes "allocated s"
  shows "targetBucket (tick + numTicksPerBucket (config s)) s
           = (targetBucket tick s + 1) mod numBuckets (config s)"
proof -
  have "0 < numTicksPerBucket (config s)"
    using assms by (simp add: allocated_def)
  then have "(tick + numTicksPerBucket (config s)) div numTicksPerBucket (config s)
      = tick div numTicksPerBucket (config s) + 1"
    by simp
  then show ?thesis
    by (simp add: targetBucket_def mod_Suc_eq)
qed

lemma fullTracker_allocated: "allocated fullTracker"
  by (simp add: allocated_def fullTracker_def numeral_3_eq_3)

lemma fullTracker_reached:
  "bindE (recordAccess exactCollab 1 ''b'' exampleTracker)
     (\<lambda>s. recordAccess exactCollab 2 ''c'' s) = Inr fullTracker"
proof -
  let ?s1 = "bucketRecord exactCollab (Suc 0) (hash64 exactCollab ''b'' kRandomSeed)
               (bucketReset exactCollab (Suc 0)
                  (exampleTracker\<lparr>mostRecentAccessedBucket := Suc 0\<rparr>))"
  have r1: "rotated exactCollab 1 exampleTracker
      = bucketReset exactCollab (Suc 0) (exampleTracker\<lparr>mostRecentAccessedBucket := Suc 0\<rparr>)"
    by (simp add: rotated_def noRotationNeeded_def targetBucket_def exampleTracker_fields)
  have 1: "recordAccess exactCollab 1 ''b'' exampleTracker = Inr ?s1"
    using r1 by (simp add: recordAccess_allocated allocated_exampleTracker)
  have a1: "allocated ?s1"
    by (simp add: allocated_exampleTracker)
  have r2: "rotated exactCollab 2 ?s1
      = bucketReset exactCollab 2 (?s1\<lparr>mostRecentAccessedBucket := 2\<rparr>)"
    by (simp add: rotated_def noRotationNeeded_def targetBucket_def)
  have 2: "recordAccess exactCollab 2 ''c'' ?s1
      = Inr (bucketRecord exactCollab 2 (hash64 exactCollab ''c'' kRandomSeed)
               (bucketReset exactCollab 2 (?s1\<lparr>mostRecentAccessedBucket := 2\<rparr>)))"
    using r2 by (simp add: recordAccess_allocated [OF a1])
  have "bucketRecord exactCollab 2 (hash64 exactCollab ''c'' kRandomSeed)
               (bucketReset exactCollab 2 (?s1\<lparr>mostRecentAccessedBucket := 2\<rparr>)) = fullTracker"
    by (simp add: bucketRecord_def bucketReset_def exampleTracker_def newAccessTrackerBase_def
        fullTracker_def numeral_3_eq_3)
      (simp add: exactCollab_def)
  then show ?thesis
    using 1 2 by (simp add: bindE_def)
qed


lemma singleBucketTracker_allocated: "allocated singleBucketTracker"
  by (simp add: singleBucketTracker_def allocated_new)

lemma singleBucketTracker_fields:
  "config singleBucketTracker = exampleConfig 1 1 True"
  "mostRecentAccessedBucket singleBucketTracker = 0"
  "itemCounts singleBucketTracker = [1]"
  "counts singleBucketTracker = [[hash64 exactCollab ''a'' kRandomSeed]]"
  by (simp_all add: singleBucketTracker_def bucketRecord_def newAccessTrackerBase_def)
    (simp add: exactCollab_def)

text \<open>
  C7 as stated fails on a tracker with a single bucket: after an access at tick 0 the
  shared index is the bucket of tick 0; one bucket span later the rotation check, and
  \<open>getAccesses\<close> with it, finds the target equal to the shared index and resets
  nothing, so the bucket that is now current still holds the access.
\<close>

theorem single_bucket_is_never_reset:
  "recordAccess exactCollab 0 ''a'' (newAccessTrackerBase exactCollab (exampleConfig 1 1 True))
     = Inr singleBucketTracker \<and>
   mostRecentAccessedBucket singleBucketTracker = targetBucket 0 singleBucketTracker \<and>
   targetBucket (0 + numTicksPerBucket (config singleBucketTracker)) singleBucketTracker = 0 \<and>
   updateMostRecentAccessedBucket exactCollab
       (0 + numTicksPerBucket (config singleBucketTracker)) singleBucketTracker
     = Inr singleBucketTracker \<and>
   getAccesses exactCollab (0 + numTicksPerBucket (config singleBucketTracker)) ''a''
       singleBucketTracker
     = Inr ([1], singleBucketTracker) \<and>
   itemCounts singleBucketTracker ! 0 = 1 \<and>
   counts singleBucketTracker ! 0 \<noteq> cmsReset exactCollab (counts singleBucketTracker ! 0)"
proof -
  have a: "recordAccess exactCollab 0 ''a''
      (newAccessTrackerBase exactCollab (exampleConfig 1 1 True)) = Inr singleBucketTracker"
    by (simp add: recordAccess_allocated allocated_new rotated_def noRotationNeeded_def
        targetBucket_def singleBucketTracker_def)
  have r: "rotated exactCollab (Suc 0) singleBucketTracker = singleBucketTracker"
    by (simp add: rotated_def noRotationNeeded_def targetBucket_def singleBucketTracker_fields)
  have u: "updateMostRecentAccessedBucket exactCollab
       (0 + numTicksPerBucket (config singleBucketTracker)) singleBucketTracker
     = Inr singleBucketTracker"
    using r
    by (simp add: updateMostRecentAccessedBucket_allocated singleBucketTracker_allocated
        singleBucketTracker_fields)
  have g: "getAccesses exactCollab (0 + numTicksPerBucket (config singleBucketTracker)) ''a''
       singleBucketTracker = Inr ([1], singleBucketTracker)"
    using r
    by (simp add: getAccesses_allocated singleBucketTracker_allocated singleBucketTracker_fields
        bucketEstimate_def)
      (simp add: exactCollab_def)
  have c: "counts singleBucketTracker ! 0 \<noteq> cmsReset exactCollab (counts singleBucketTracker ! 0)"
    by (simp add: singleBucketTracker_fields) (simp add: exactCollab_def)
  show ?thesis
    using a u g c by (simp add: singleBucketTracker_fields targetBucket_def)
qed

lemma rotation_after_one_span:
  assumes "allocated s" "3 \<le> numBuckets (config s)"
    "mostRecentAccessedBucket s = targetBucket tick s"
  shows "\<exists>s'.
     updateMostRecentAccessedBucket B (tick + numTicksPerBucket (config s)) s = Inr s' \<and>
     (\<exists>features. getAccesses B (tick + numTicksPerBucket (config s)) key s
                   = Inr (features, s')) \<and>
     recordAccess B (tick + numTicksPerBucket (config s)) key s
       = Inr (bucketRecord B (targetBucket (tick + numTicksPerBucket (config s)) s)
                (hash64 B key kRandomSeed) s') \<and>
     targetBucket (tick + numTicksPerBucket (config s)) s
       = (mostRecentAccessedBucket s + 1) mod numBuckets (config s) \<and>
     targetBucket (tick + numTicksPerBucket (config s)) s \<noteq> mostRecentAccessedBucket s \<and>
     mostRecentAccessedBucket s' = targetBucket (tick + numTicksPerBucket (config s)) s \<and>
     itemCounts s' ! targetBucket (tick + numTicksPerBucket (config s)) s = 0 \<and>
     (if useCounts (config s)
      then counts s' ! targetBucket (tick + numTicksPerBucket (config s)) s
             = cmsReset B (counts s ! targetBucket (tick + numTicksPerBucket (config s)) s) \<and>
           filters s' = filters s
      else filters s'
             = bfClear B (filters s) (targetBucket (tick + numTicksPerBucket (config s)) s) \<and>
           counts s' = counts s) \<and>
     (\<forall>j < numBuckets (config s).
        j \<noteq> targetBucket (tick + numTicksPerBucket (config s)) s \<longrightarrow>
          itemCounts s' ! j = itemCounts s ! j \<and> counts s' ! j = counts s ! j) \<and>
     length (itemCounts s') = length (itemCounts s) \<and>
     length (counts s') = length (counts s) \<and>
     config s' = config s \<and> locks s' = locks s"
proof -
  let ?n = "numBuckets (config s)"
  let ?new = "targetBucket (tick + numTicksPerBucket (config s)) s"
  let ?s' = "bucketReset B ?new (s\<lparr>mostRecentAccessedBucket := ?new\<rparr>)"
  have lt: "targetBucket tick s < ?n"
    using assms(1) by (rule targetBucket_less)
  have new: "?new = (mostRecentAccessedBucket s + 1) mod ?n"
    using targetBucket_next_span [OF assms(1), of tick] assms(3) by simp
  have newlt: "?new < ?n"
    using assms(1) by (rule targetBucket_less)
  have d1: "?new \<noteq> mostRecentAccessedBucket s"
    using next_bucket_distinct(1) [OF assms(2), of "mostRecentAccessedBucket s"] lt assms(3) new
    by simp
  have d2: "(?new + 1) mod ?n \<noteq> mostRecentAccessedBucket s"
    using next_bucket_distinct(2) [OF assms(2), of "mostRecentAccessedBucket s"] lt assms(3) new
    by simp
  have rot: "rotated B (tick + numTicksPerBucket (config s)) s = ?s'"
    using d1 d2 by (simp add: rotated_def noRotationNeeded_def)
  have len: "length (itemCounts s) = ?n"
    and cl: "length (counts s) = (if useCounts (config s) then ?n else 0)"
    using assms(1) by (simp_all add: allocated_def)
  have u: "updateMostRecentAccessedBucket B (tick + numTicksPerBucket (config s)) s = Inr ?s'"
    using rot by (simp add: updateMostRecentAccessedBucket_allocated [OF assms(1)])
  have g: "\<exists>features. getAccesses B (tick + numTicksPerBucket (config s)) key s
                   = Inr (features, ?s')"
    using rot by (simp add: getAccesses_allocated [OF assms(1)])
  have r: "recordAccess B (tick + numTicksPerBucket (config s)) key s
       = Inr (bucketRecord B ?new (hash64 B key kRandomSeed) ?s')"
    using rot by (simp add: recordAccess_allocated [OF assms(1)])
  have z: "itemCounts ?s' ! ?new = 0"
    using newlt len by (simp add: bucketReset_def)
  have b: "if useCounts (config s)
      then counts ?s' ! ?new = cmsReset B (counts s ! ?new) \<and> filters ?s' = filters s
      else filters ?s' = bfClear B (filters s) ?new \<and> counts ?s' = counts s"
    using newlt cl by (simp add: bucketReset_def)
  have o: "\<forall>j < ?n. j \<noteq> ?new \<longrightarrow>
          itemCounts ?s' ! j = itemCounts s ! j \<and> counts ?s' ! j = counts s ! j"
    by (simp add: bucketReset_def)
  have f: "length (itemCounts ?s') = length (itemCounts s)"
    "length (counts ?s') = length (counts s)" "config ?s' = config s" "locks ?s' = locks s"
    "mostRecentAccessedBucket ?s' = ?new"
    by simp_all
  show ?thesis
    using u g r new d1 z b o f by blast
qed


lemma fullTracker_fields:
  "config fullTracker = exampleConfig 3 1 True"
  "mostRecentAccessedBucket fullTracker = 2"
  "itemCounts fullTracker = [1, 1, 1]"
  "counts fullTracker = [[hash64 exactCollab ''a'' kRandomSeed],
                         [hash64 exactCollab ''b'' kRandomSeed],
                         [hash64 exactCollab ''c'' kRandomSeed]]"
  by (simp_all add: fullTracker_def)

lemma rotation_frame:
  assumes "allocated s"
  shows "\<exists>s'.
     updateMostRecentAccessedBucket B tick s = Inr s' \<and>
     (\<exists>features. getAccesses B tick key s = Inr (features, s')) \<and>
     recordAccess B tick key s
       = Inr (bucketRecord B (mostRecentAccessedBucket s') (hash64 B key kRandomSeed) s') \<and>
     (\<forall>j. j \<noteq> targetBucket tick s \<longrightarrow>
        itemCounts s' ! j = itemCounts s ! j \<and> counts s' ! j = counts s ! j) \<and>
     (filters s' = filters s \<or> filters s' = bfClear B (filters s) (targetBucket tick s)) \<and>
     length (itemCounts s') = length (itemCounts s) \<and>
     length (counts s') = length (counts s) \<and>
     config s' = config s \<and> locks s' = locks s"
proof -
  let ?s' = "rotated B tick s"
  have u: "updateMostRecentAccessedBucket B tick s = Inr ?s'"
    using assms by (rule updateMostRecentAccessedBucket_allocated)
  have g: "\<exists>features. getAccesses B tick key s = Inr (features, ?s')"
    using assms by (simp add: getAccesses_allocated)
  have r: "recordAccess B tick key s
       = Inr (bucketRecord B (mostRecentAccessedBucket ?s') (hash64 B key kRandomSeed) ?s')"
    using assms by (rule recordAccess_allocated)
  have o: "\<forall>j. j \<noteq> targetBucket tick s \<longrightarrow>
        itemCounts ?s' ! j = itemCounts s ! j \<and> counts ?s' ! j = counts s ! j"
    by (simp add: rotated_def bucketReset_def)
  have f: "filters ?s' = filters s \<or> filters ?s' = bfClear B (filters s) (targetBucket tick s)"
    by (simp add: rotated_def bucketReset_def)
  have l: "length (itemCounts ?s') = length (itemCounts s)"
    "length (counts ?s') = length (counts s)" "config ?s' = config s" "locks ?s' = locks s"
    by (simp_all add: rotated_def)
  show ?thesis
    using u g r o f l by blast
qed

lemma small_ring_never_rotates:
  assumes "allocated s" "numBuckets (config s) \<le> 2"
    "mostRecentAccessedBucket s < numBuckets (config s)"
  shows "updateMostRecentAccessedBucket B tick s = Inr s"
proof -
  let ?n = "numBuckets (config s)"
  let ?t = "targetBucket tick s"
  let ?m = "mostRecentAccessedBucket s"
  have t: "?t < ?n"
    using assms(1) by (rule targetBucket_less)
  have "?t = ?m \<or> (?t + 1) mod ?n = ?m"
  proof (cases "?t = ?m")
    case True
    then show ?thesis by simp
  next
    case False
    then have n2: "?n = 2"
      using t assms(2,3) by arith
    have "(?t = 0 \<and> ?m = 1) \<or> (?t = 1 \<and> ?m = 0)"
      using False t assms(3) n2 by arith
    then have "(?t + 1) mod 2 = ?m"
      by auto
    then show ?thesis
      by (simp only: n2) simp
  qed
  then have "noRotationNeeded ?t ?m s"
    by (simp add: noRotationNeeded_def)
  then have "rotated B tick s = s"
    by (simp add: rotated_def)
  then show ?thesis
    using assms(1) by (simp add: updateMostRecentAccessedBucket_allocated)
qed


text \<open>
  C7, amended. On every allocated tracker and at every tick, the rotation check (alone,
  or at the start of \<open>getAccesses\<close> or \<open>recordAccess\<close>) leaves the sketch and the raw
  counter of every bucket other than the bucket of the tick, the config and the locks as
  they were, and the filter bank either as it was or cleared at that one bucket.
  When the tracker has at least three buckets and its shared index is the bucket of the
  tick before the advance, then after an advance of exactly one bucket span the check
  moves the shared index to the next bucket, resets that bucket's backend and sets its
  raw counter to zero. With one or two buckets (and the shared index a bucket index) the
  check never resets anything, at any tick.
\<close>

theorem rotation_resets_only_the_entered_bucket:
  assumes "allocated s"
  shows "(\<exists>s'.
      updateMostRecentAccessedBucket B tick s = Inr s' \<and>
      (\<exists>features. getAccesses B tick key s = Inr (features, s')) \<and>
      recordAccess B tick key s
        = Inr (bucketRecord B (mostRecentAccessedBucket s') (hash64 B key kRandomSeed) s') \<and>
      (\<forall>j. j \<noteq> targetBucket tick s \<longrightarrow>
         itemCounts s' ! j = itemCounts s ! j \<and> counts s' ! j = counts s ! j) \<and>
      (filters s' = filters s \<or> filters s' = bfClear B (filters s) (targetBucket tick s)) \<and>
      length (itemCounts s') = length (itemCounts s) \<and>
      length (counts s') = length (counts s) \<and>
      config s' = config s \<and> locks s' = locks s) \<and>
   (3 \<le> numBuckets (config s) \<and> mostRecentAccessedBucket s = targetBucket tick s \<longrightarrow>
     (\<exists>s'.
        updateMostRecentAccessedBucket B (tick + numTicksPerBucket (config s)) s = Inr s' \<and>
        (\<exists>features. getAccesses B (tick + numTicksPerBucket (config s)) key s
                      = Inr (features, s')) \<and>
        recordAccess B (tick + numTicksPerBucket (config s)) key s
          = Inr (bucketRecord B (targetBucket (tick + numTicksPerBucket (config s)) s)
                   (hash64 B key kRandomSeed) s') \<and>
        targetBucket (tick + numTicksPerBucket (config s)) s
          = (mostRecentAccessedBucket s + 1) mod numBuckets (config s) \<and>
        targetBucket (tick + numTicksPerBucket (config s)) s \<noteq> mostRecentAccessedBucket s \<and>
        mostRecentAccessedBucket s' = targetBucket (tick + numTicksPerBucket (config s)) s \<and>
        itemCounts s' ! targetBucket (tick + numTicksPerBucket (config s)) s = 0 \<and>
        (if useCounts (config s)
         then counts s' ! targetBucket (tick + numTicksPerBucket (config s)) s
                = cmsReset B (counts s ! targetBucket (tick + numTicksPerBucket (config s)) s) \<and>
              filters s' = filters s
         else filters s'
                = bfClear B (filters s) (targetBucket (tick + numTicksPerBucket (config s)) s) \<and>
              counts s' = counts s) \<and>
        (\<forall>j < numBuckets (config s).
           j \<noteq> targetBucket (tick + numTicksPerBucket (config s)) s \<longrightarrow>
             itemCounts s' ! j = itemCounts s ! j \<and> counts s' ! j = counts s ! j) \<and>
        length (itemCounts s') = length (itemCounts s) \<and>
        length (counts s') = length (counts s) \<and>
        config s' = config s \<and> locks s' = locks s)) \<and>
   (numBuckets (config s) \<le> 2 \<and> mostRecentAccessedBucket s < numBuckets (config s) \<longrightarrow>
      updateMostRecentAccessedBucket B tick s = Inr s)"
proof (intro conjI impI)
  show "\<exists>s'.
     updateMostRecentAccessedBucket B tick s = Inr s' \<and>
     (\<exists>features. getAccesses B tick key s = Inr (features, s')) \<and>
     recordAccess B tick key s
       = Inr (bucketRecord B (mostRecentAccessedBucket s') (hash64 B key kRandomSeed) s') \<and>
     (\<forall>j. j \<noteq> targetBucket tick s \<longrightarrow>
        itemCounts s' ! j = itemCounts s ! j \<and> counts s' ! j = counts s ! j) \<and>
     (filters s' = filters s \<or> filters s' = bfClear B (filters s) (targetBucket tick s)) \<and>
     length (itemCounts s') = length (itemCounts s) \<and>
     length (counts s') = length (counts s) \<and>
     config s' = config s \<and> locks s' = locks s"
    using assms by (rule rotation_frame)
next
  assume h: "3 \<le> numBuckets (config s) \<and> mostRecentAccessedBucket s = targetBucket tick s"
  show "\<exists>s'.
     updateMostRecentAccessedBucket B (tick + numTicksPerBucket (config s)) s = Inr s' \<and>
     (\<exists>features. getAccesses B (tick + numTicksPerBucket (config s)) key s
                   = Inr (features, s')) \<and>
     recordAccess B (tick + numTicksPerBucket (config s)) key s
       = Inr (bucketRecord B (targetBucket (tick + numTicksPerBucket (config s)) s)
                (hash64 B key kRandomSeed) s') \<and>
     targetBucket (tick + numTicksPerBucket (config s)) s
       = (mostRecentAccessedBucket s + 1) mod numBuckets (config s) \<and>
     targetBucket (tick + numTicksPerBucket (config s)) s \<noteq> mostRecentAccessedBucket s \<and>
     mostRecentAccessedBucket s' = targetBucket (tick + numTicksPerBucket (config s)) s \<and>
     itemCounts s' ! targetBucket (tick + numTicksPerBucket (config s)) s = 0 \<and>
     (if useCounts (config s)
      then counts s' ! targetBucket (tick + numTicksPerBucket (config s)) s
             = cmsReset B (counts s ! targetBucket (tick + numTicksPerBucket (config s)) s) \<and>
           filters s' = filters s
      else filters s'
             = bfClear B (filters s) (targetBucket (tick + numTicksPerBucket (config s)) s) \<and>
           counts s' = counts s) \<and>
     (\<forall>j < numBuckets (config s).
        j \<noteq> targetBucket (tick + numTicksPerBucket (config s)) s \<longrightarrow>
          itemCounts s' ! j = itemCounts s ! j \<and> counts s' ! j = counts s ! j) \<and>
     length (itemCounts s') = length (itemCounts s) \<and>
     length (counts s') = length (counts s) \<and>
     config s' = config s \<and> locks s' = locks s"
    using assms h by (intro rotation_after_one_span) simp_all
next
  assume "numBuckets (config s) \<le> 2 \<and> mostRecentAccessedBucket s < numBuckets (config s)"
  then show "updateMostRecentAccessedBucket B tick s = Inr s"
    using assms by (intro small_ring_never_rotates) simp_all
qed

theorem rotation_resets_only_the_entered_bucket_witness:
  "allocated fullTracker \<and> 3 \<le> numBuckets (config fullTracker) \<and>
   mostRecentAccessedBucket fullTracker = targetBucket 2 fullTracker \<and>
   (\<exists>s'. updateMostRecentAccessedBucket exactCollab 3 fullTracker = Inr s' \<and>
      mostRecentAccessedBucket s' = 0 \<and>
      itemCounts s' ! 0 = 0 \<and> itemCounts s' ! 1 = 1 \<and> itemCounts s' ! 2 = 1 \<and>
      counts s' ! 0 = [] \<and>
      counts s' ! 1 = [hash64 exactCollab ''b'' kRandomSeed] \<and>
      counts s' ! 2 = [hash64 exactCollab ''c'' kRandomSeed]) \<and>
   allocated singleBucketTracker \<and>
   numBuckets (config singleBucketTracker) \<le> 2 \<and>
   mostRecentAccessedBucket singleBucketTracker < numBuckets (config singleBucketTracker) \<and>
   updateMostRecentAccessedBucket exactCollab 5 singleBucketTracker = Inr singleBucketTracker"
proof -
  have c: "3 \<le> numBuckets (config fullTracker)"
    by (simp add: fullTracker_fields)
  have m: "mostRecentAccessedBucket fullTracker = targetBucket 2 fullTracker"
    by (simp add: fullTracker_fields targetBucket_def)
  have t: "targetBucket 3 fullTracker = 0"
    by (simp add: fullTracker_fields targetBucket_def)
  have three: "2 + numTicksPerBucket (config fullTracker) = 3"
    by (simp add: fullTracker_fields)
  have uc: "useCounts (config fullTracker)"
    by (simp add: fullTracker_fields)
  note full = rotation_resets_only_the_entered_bucket
      [where s = fullTracker and B = exactCollab and tick = 2 and key = "''a''",
       OF fullTracker_allocated, unfolded three t]
  have "3 \<le> numBuckets (config fullTracker) \<and>
      mostRecentAccessedBucket fullTracker = targetBucket 2 fullTracker"
    using c m by simp
  with full obtain s' where
    u: "updateMostRecentAccessedBucket exactCollab 3 fullTracker = Inr s'" and
    mr: "mostRecentAccessedBucket s' = 0" and
    z: "itemCounts s' ! 0 = 0" and
    i: "if useCounts (config fullTracker)
        then counts s' ! 0 = cmsReset exactCollab (counts fullTracker ! 0) \<and>
             filters s' = filters fullTracker
        else filters s' = bfClear exactCollab (filters fullTracker) 0 \<and>
             counts s' = counts fullTracker" and
    o: "\<forall>j < numBuckets (config fullTracker). j \<noteq> 0 \<longrightarrow>
          itemCounts s' ! j = itemCounts fullTracker ! j \<and> counts s' ! j = counts fullTracker ! j"
    by blast
  have b: "counts s' ! 0 = cmsReset exactCollab (counts fullTracker ! 0)"
    using i uc by simp
  have o1: "itemCounts s' ! 1 = 1 \<and> counts s' ! 1 = [hash64 exactCollab ''b'' kRandomSeed]"
    using o by (simp add: fullTracker_fields)
  have o2: "itemCounts s' ! 2 = 1 \<and> counts s' ! 2 = [hash64 exactCollab ''c'' kRandomSeed]"
    using o by (simp add: fullTracker_fields)
  have b0: "counts s' ! 0 = []"
    using b by (simp add: exactCollab_def)
  have sn: "numBuckets (config singleBucketTracker) \<le> 2"
    and sm: "mostRecentAccessedBucket singleBucketTracker < numBuckets (config singleBucketTracker)"
    by (simp_all add: singleBucketTracker_fields)
  note single = rotation_resets_only_the_entered_bucket
      [where s = singleBucketTracker and B = exactCollab and tick = 5 and key = "''a''",
       OF singleBucketTracker_allocated]
  have su: "updateMostRecentAccessedBucket exactCollab 5 singleBucketTracker
      = Inr singleBucketTracker"
    using single sn sm by blast
  show ?thesis
    using fullTracker_allocated c m u mr z b0 o1 o2 singleBucketTracker_allocated sn sm su
    by blast
qed


subsection \<open>C3: no self-counting\<close>







lemma walk_index_start:
  assumes "m < (n::nat)"
  shows "(m + n - 0) mod n = m"
  using assms by simp









subsection \<open>C4: the sum of the raw counts\<close>


























end
